theory Spec2Isabelle
  imports Complex_Main "HOL-Library.Log_Nat"
begin

section \<open>ESP32 status monitor: the server of \<^verbatim>\<open>server.js\<close>\<close>

text \<open>
  The server keeps two SQLite tables, \<^verbatim>\<open>status_updates\<close> (an append-only log of reports)
  and \<^verbatim>\<open>devices\<close> (one row per device id), and serves four JSON endpoints; a timer
  sweeps the \<^verbatim>\<open>devices\<close> table every 60 seconds. Each handler is a function from the
  server clock (milliseconds since the epoch, what \<^verbatim>\<open>Date.now()\<close> returns when the handler
  runs) and the state of the tables to a response and the new state.

  The handlers hand their SQL statements to the \<^verbatim>\<open>sqlite3\<close> driver, which runs them later
  and, outside \<^verbatim>\<open>db.serialize\<close> (lines 32 to 52 only), in no fixed order. Where the order
  can be observed it is an input of the handler. A statement that fails calls its
  callback with the error; a statement without a callback raises an \<^verbatim>\<open>error\<close> event
  that nobody handles, which ends the process.
\<close>

subsection \<open>Numbers\<close>

text \<open>
  A JavaScript number is an IEEE 754 double. \<open>double x\<close> is the double nearest to the
  rational \<open>x\<close>, ties to the even significand, for the normal range (magnitudes from
  \<^verbatim>\<open>2^-1022\<close> up to \<^verbatim>\<open>2^1024\<close>), which holds every value computed from dates here. Each
  arithmetic operation of the source is the exact operation followed by \<open>double\<close>.
\<close>

definition exponent :: "rat \<Rightarrow> int" where
  "exponent x =
     (if 1 \<le> \<bar>x\<bar> then bitlen \<lfloor>\<bar>x\<bar>\<rfloor> - 1 else - bitlen (\<lceil>1 / \<bar>x\<bar>\<rceil> - 1))"

definition roundTiesToEven :: "rat \<Rightarrow> int" where
  "roundTiesToEven y =
     (if y - of_int \<lfloor>y\<rfloor> < 1 / 2 then \<lfloor>y\<rfloor>
      else if 1 / 2 < y - of_int \<lfloor>y\<rfloor> then \<lfloor>y\<rfloor> + 1
      else if even \<lfloor>y\<rfloor> then \<lfloor>y\<rfloor> else \<lfloor>y\<rfloor> + 1)"

definition double :: "rat \<Rightarrow> rat" where
  "double x =
     (if x = 0 then 0
      else of_int (roundTiesToEven (x * 2 powi (52 - exponent x))) * 2 powi (exponent x - 52))"

text \<open>
  A number of a JSON body, written as an integer: \<^verbatim>\<open>JSON.parse\<close> reads it as the nearest
  double, and as an infinity beyond the range of doubles.
\<close>

datatype number = Num int | Infinity | MinusInfinity

definition JSON_number :: "int \<Rightarrow> number" where
  "JSON_number x =
     (if 2 ^ 1024 \<le> double (of_int x) then Infinity
      else if double (of_int x) \<le> - (2 ^ 1024) then MinusInfinity
      else Num \<lfloor>double (of_int x)\<rfloor>)"

subsection \<open>Time\<close>

text \<open>
  \<^verbatim>\<open>CURRENT_TIMESTAMP\<close> has a resolution of one second: a \<^verbatim>\<open>DATETIME\<close> column is whole
  seconds since the epoch, and \<^verbatim>\<open>new Date(column)\<close> reads it back as milliseconds (the
  server runs in UTC, the zone of \<^verbatim>\<open>CURRENT_TIMESTAMP\<close>).
\<close>

definition CURRENT_TIMESTAMP :: "int \<Rightarrow> int" where
  "CURRENT_TIMESTAMP now = now div 1000"

definition new_Date :: "int \<Rightarrow> int" where
  "new_Date datetime = datetime * 1000"

text \<open>\<^verbatim>\<open>ms / 1000 / 60\<close>, for a difference \<open>ms\<close> of two dates.\<close>

definition minutes :: "int \<Rightarrow> rat" where
  "minutes ms = double (double (of_int ms / 1000) / 60)"

definition Math_round :: "rat \<Rightarrow> int" where
  "Math_round x = \<lfloor>x + 1 / 2\<rfloor>"

text \<open>\<^verbatim>\<open>new Date(number)\<close> drops the fraction of a millisecond (towards zero).\<close>

definition TimeClip :: "rat \<Rightarrow> int" where
  "TimeClip x = (if 0 \<le> x then \<lfloor>x\<rfloor> else \<lceil>x\<rceil>)"

subsection \<open>Data\<close>

text \<open>
  The JSON object of a \<^verbatim>\<open>POST /api/status\<close>: every field may be absent, and a field that
  is present has the type of the data model (a string, an integer, a boolean). What the
  driver makes of a value of another JSON type is not in the source.
\<close>

record body =
  device_id :: "string option"
  status :: "string option"
  uptime_seconds :: "int option"
  ip_address :: "string option"
  rssi :: "int option"
  free_heap :: "int option"
  is_boot :: "bool option"
  timestamp :: "int option"

text \<open>
  What \<^verbatim>\<open>express.json()\<close> (line 14) makes of the bytes of a request: a body that is not
  JSON, or is a JSON value other than an object or an array, is refused there (an array
  has none of the fields).
\<close>

datatype request_body = BadJson | JsonObject body

text \<open>A row of \<^verbatim>\<open>devices\<close>.\<close>

record device =
  device_id :: string
  last_seen :: int
  total_uptime :: int
  status :: string

text \<open>
  The object that \<^verbatim>\<open>GET /api/history\<close> puts into a gap; \<^verbatim>\<open>id\<close> is the string
  \<^verbatim>\<open>offline_${i}\<close>, \<^verbatim>\<open>server_timestamp\<close> the milliseconds of the ISO string.
\<close>

record offline_marker =
  id :: string
  device_id :: string
  status :: string
  server_timestamp :: int
  is_offline_marker :: bool

text \<open>A row of \<^verbatim>\<open>status_updates\<close>.\<close>

record status_update =
  id :: nat
  device_id :: string
  status :: string
  uptime_seconds :: number
  ip_address :: string
  rssi :: number
  free_heap :: number
  is_boot :: int
  timestamp :: number
  server_timestamp :: int

datatype history_entry = Row status_update | Marker offline_marker

datatype log_entry =
    ReceivedStatusUpdate body
  | CameBackOnline "string option" int
  | WentOffline string int
  | DetectedOffline string int
  | ErrorCheckingDevices string
  | ErrorInsertingOfflineMarker string

datatype payload =
    StatusReceived bool string
  | NoDeviceData string string
  | DeviceStatus string string int rat "status_update option"
  | History "history_entry list"
  | Stats nat "int option" "int option" "int option"
  | ErrorMessage string
  | BadRequest

datatype response = Response nat payload

text \<open>
  The tables, the console, and the process: \<open>exited\<close> holds the error that ended the
  process, \<open>None\<close> while it runs. A request or a tick of the timer finds the process
  running.
\<close>

record state =
  status_updates :: "status_update list"
  sqlite_sequence :: nat
  devices :: "device list"
  console :: "log_entry list"
  exited :: "string option"

subsection \<open>Storage\<close>

text \<open>
  Every statement a handler sends to the database may fail with an error message. Which
  ones fail is an input: a function from the place of the statement in the source to the
  message, \<open>None\<close> when the statement succeeds.
\<close>

datatype db_op =
    PostInsert | PostSelect | PostUpsert
  | StatusSelectDevice | StatusUpdate | StatusSelectLatest
  | HistorySelect | StatsSelect
  | SweepSelect | SweepUpdate string | SweepInsert string

type_synonym faults = "db_op \<Rightarrow> string option"

definition no_faults :: faults where
  "no_faults = (\<lambda>_. None)"

text \<open>
  A write that was given no callback (\<^verbatim>\<open>stmt.run(...)\<close>, \<^verbatim>\<open>db.run(sql, params)\<close>): when it
  fails the tables stay as they were and the process ends. Nothing runs after the process
  has ended.
\<close>

definition db_run :: "string option \<Rightarrow> (state \<Rightarrow> state) \<Rightarrow> state \<Rightarrow> state" where
  "db_run err write s =
     (if exited s \<noteq> None then s
      else case err of None \<Rightarrow> write s | Some msg \<Rightarrow> s\<lparr>exited := Some msg\<rparr>)"

text \<open>A read with a callback: the callback gets the error or the rows.\<close>

definition db_query :: "string option \<Rightarrow> 'a \<Rightarrow> string + 'a" where
  "db_query err rows = (case err of None \<Rightarrow> Inr rows | Some msg \<Rightarrow> Inl msg)"

definition console_log :: "log_entry \<Rightarrow> state \<Rightarrow> state" where
  "console_log e s = s\<lparr>console := console s @ [e]\<rparr>"

text \<open>\<^verbatim>\<open>INSERT INTO status_updates\<close>: the row gets the next \<^verbatim>\<open>AUTOINCREMENT\<close> id.\<close>

definition insert_status_update :: "status_update \<Rightarrow> state \<Rightarrow> state" where
  "insert_status_update r s =
     s\<lparr>status_updates := status_updates s @ [r\<lparr>id := Suc (sqlite_sequence s)\<rparr>],
       sqlite_sequence := Suc (sqlite_sequence s)\<rparr>"

text \<open>
  \<^verbatim>\<open>INSERT OR REPLACE INTO devices (device_id, last_seen, status)\<close>: a row with the same
  primary key is deleted, and the new row takes the column default 0 for \<^verbatim>\<open>total_uptime\<close>,
  which the statement does not list.
\<close>

definition insert_or_replace_device :: "string \<Rightarrow> int \<Rightarrow> string \<Rightarrow> state \<Rightarrow> state" where
  "insert_or_replace_device k ts st s =
     s\<lparr>devices := filter (\<lambda>d. device.device_id d \<noteq> k) (devices s) @
          [\<lparr>device.device_id = k, last_seen = ts, total_uptime = 0, device.status = st\<rparr>]\<rparr>"

text \<open>\<^verbatim>\<open>UPDATE devices SET status = 'offline' WHERE device_id = ?\<close>\<close>

definition update_device_offline :: "string \<Rightarrow> state \<Rightarrow> state" where
  "update_device_offline k s =
     s\<lparr>devices := map (\<lambda>d. if device.device_id d = k then d\<lparr>device.status := ''offline''\<rparr> else d)
          (devices s)\<rparr>"

text \<open>\<^verbatim>\<open>SELECT status FROM devices WHERE device_id = ?\<close>\<close>

definition select_device_status :: "string \<Rightarrow> state \<Rightarrow> string option" where
  "select_device_status k s =
     map_option device.status (find (\<lambda>d. device.device_id d = k) (devices s))"

text \<open>
  \<^verbatim>\<open>ORDER BY column DESC\<close>; rows with equal keys stay in table order (SQL leaves their
  order open). \<^verbatim>\<open>LIMIT n\<close> with a negative \<open>n\<close> is no limit in SQLite.
\<close>

definition order_by_desc :: "('a \<Rightarrow> int) \<Rightarrow> 'a list \<Rightarrow> 'a list" where
  "order_by_desc key rows = sort_key (\<lambda>r. - key r) rows"

definition sql_limit :: "int \<Rightarrow> 'a list \<Rightarrow> 'a list" where
  "sql_limit n rows = (if n < 0 then rows else take (nat n) rows)"

definition first_row :: "'a list \<Rightarrow> 'a option" where
  "first_row rows = (case rows of [] \<Rightarrow> None | r # _ \<Rightarrow> Some r)"

text \<open>\<^verbatim>\<open>SELECT * FROM devices ORDER BY last_seen DESC LIMIT 1\<close>\<close>

definition select_latest_device :: "state \<Rightarrow> device option" where
  "select_latest_device s = first_row (sql_limit 1 (order_by_desc last_seen (devices s)))"

text \<open>\<^verbatim>\<open>SELECT * FROM status_updates WHERE device_id = ? ORDER BY server_timestamp DESC LIMIT 1\<close>\<close>

definition select_latest_update :: "string \<Rightarrow> state \<Rightarrow> status_update option" where
  "select_latest_update k s =
     first_row (sql_limit 1 (order_by_desc server_timestamp
       (filter (\<lambda>r. device_id r = k) (status_updates s))))"

text \<open>\<^verbatim>\<open>SELECT * FROM status_updates ORDER BY server_timestamp DESC LIMIT ?\<close>\<close>

definition select_history :: "int \<Rightarrow> state \<Rightarrow> status_update list" where
  "select_history limit s = sql_limit limit (order_by_desc server_timestamp (status_updates s))"

subsection \<open>\<^verbatim>\<open>POST /api/status\<close>\<close>

text \<open>\<^verbatim>\<open>value || default\<close>: an absent field, the empty string and 0 give the default.\<close>

definition or_string :: "string option \<Rightarrow> string \<Rightarrow> string" where
  "or_string v d = (case v of None \<Rightarrow> d | Some x \<Rightarrow> if x = [] then d else x)"

definition or_number :: "int option \<Rightarrow> number \<Rightarrow> number" where
  "or_number v d =
     (case v of None \<Rightarrow> d | Some x \<Rightarrow> if JSON_number x = Num 0 then d else JSON_number x)"

definition truthy :: "bool option \<Rightarrow> bool" where
  "truthy v = (case v of None \<Rightarrow> False | Some b \<Rightarrow> b)"

text \<open>The row bound to the \<^verbatim>\<open>INSERT\<close>; its id is assigned by the insertion.\<close>

definition report_of_body :: "body \<Rightarrow> int \<Rightarrow> status_update" where
  "report_of_body data now =
     \<lparr>id = 0,
      device_id = or_string (body.device_id data) ''unknown'',
      status = or_string (body.status data) ''online'',
      uptime_seconds = or_number (body.uptime_seconds data) (Num 0),
      ip_address = or_string (body.ip_address data) [],
      rssi = or_number (body.rssi data) (Num 0),
      free_heap = or_number (body.free_heap data) (Num 0),
      is_boot = (if truthy (body.is_boot data) then 1 else 0),
      timestamp = or_number (body.timestamp data) (Num now),
      server_timestamp = CURRENT_TIMESTAMP now\<rparr>"

text \<open>
  The handler hands three statements to the driver: the \<^verbatim>\<open>INSERT\<close> of the report, the
  \<^verbatim>\<open>SELECT\<close> of the stored status, whose callback logs, and the \<^verbatim>\<open>INSERT OR REPLACE\<close> of
  the device row. The driver runs them in one of six orders; the source issues them in
  the first.
\<close>

datatype post_order =
    InsertSelectUpsert | InsertUpsertSelect | SelectInsertUpsert
  | SelectUpsertInsert | UpsertInsertSelect | UpsertSelectInsert

fun post_sequence :: "post_order \<Rightarrow> db_op list" where
  "post_sequence InsertSelectUpsert = [PostInsert, PostSelect, PostUpsert]"
| "post_sequence InsertUpsertSelect = [PostInsert, PostUpsert, PostSelect]"
| "post_sequence SelectInsertUpsert = [PostSelect, PostInsert, PostUpsert]"
| "post_sequence SelectUpsertInsert = [PostSelect, PostUpsert, PostInsert]"
| "post_sequence UpsertInsertSelect = [PostUpsert, PostInsert, PostSelect]"
| "post_sequence UpsertSelectInsert = [PostUpsert, PostSelect, PostInsert]"

definition post_statement :: "faults \<Rightarrow> body \<Rightarrow> int \<Rightarrow> db_op \<Rightarrow> state \<Rightarrow> state" where
  "post_statement F data now op s =
     (if op = PostInsert
      then db_run (F PostInsert) (insert_status_update (report_of_body data now)) s
      else if op = PostUpsert
      then db_run (F PostUpsert)
             (insert_or_replace_device (or_string (body.device_id data) ''unknown'')
                (CURRENT_TIMESTAMP now) (or_string (body.status data) ''online'')) s
      else if op = PostSelect \<and> exited s = None
      then (case db_query (F PostSelect)
                   (select_device_status (or_string (body.device_id data) ''unknown'') s) of
              Inr (Some st) \<Rightarrow>
                if st = ''offline''
                then console_log (CameBackOnline (body.device_id data) now) s else s
            | _ \<Rightarrow> s)
      else s)"

text \<open>
  The response is sent before any of the statements has run: the handler passes no
  callback to either write and ignores an error of the read.
\<close>

definition post_status :: "faults \<Rightarrow> post_order \<Rightarrow> body \<Rightarrow> int \<Rightarrow> state \<Rightarrow> response \<times> state" where
  "post_status F ord data now s =
     (Response 200 (StatusReceived True ''Status received''),
      fold (post_statement F data now) (post_sequence ord)
        (console_log (ReceivedStatusUpdate data) s))"

text \<open>The route behind the JSON middleware, which answers 400 to what it refuses.\<close>

definition post_api_status ::
  "faults \<Rightarrow> post_order \<Rightarrow> request_body \<Rightarrow> int \<Rightarrow> state \<Rightarrow> response \<times> state" where
  "post_api_status F ord req now s =
     (case req of
        BadJson \<Rightarrow> (Response 400 BadRequest, s)
      | JsonObject data \<Rightarrow> post_status F ord data now s)"

subsection \<open>\<^verbatim>\<open>GET /api/status\<close>\<close>

definition minutesSinceLastSeen :: "int \<Rightarrow> device \<Rightarrow> rat" where
  "minutesSinceLastSeen now dev = minutes (now - new_Date (last_seen dev))"

definition isOnline :: "int \<Rightarrow> device \<Rightarrow> bool" where
  "isOnline now dev = (minutesSinceLastSeen now dev < 1)"

text \<open>
  In the callback of the first read the handler logs, hands the \<^verbatim>\<open>UPDATE\<close> (no callback)
  and the second read to the driver, and answers in the callback of the second read. When
  the \<^verbatim>\<open>UPDATE\<close> fails and is run first, the process ends before the answer.
\<close>

datatype status_order = UpdateThenSelect | SelectThenUpdate

definition get_status ::
  "faults \<Rightarrow> status_order \<Rightarrow> int \<Rightarrow> state \<Rightarrow> response option \<times> state" where
  "get_status F ord now s =
     (case db_query (F StatusSelectDevice) (select_latest_device s) of
        Inl msg \<Rightarrow> (Some (Response 500 (ErrorMessage msg)), s)
      | Inr None \<Rightarrow> (Some (Response 200 (NoDeviceData ''offline'' ''No device data'')), s)
      | Inr (Some dev) \<Rightarrow>
          (let s1 = (if \<not> isOnline now dev \<and> device.status dev = ''online''
                     then db_run (F StatusUpdate) (update_device_offline (device.device_id dev))
                            (console_log (WentOffline (device.device_id dev) now) s)
                     else s);
               answer =
                 (case db_query (F StatusSelectLatest)
                         (select_latest_update (device.device_id dev) s) of
                    Inl msg \<Rightarrow> Response 500 (ErrorMessage msg)
                  | Inr latest \<Rightarrow>
                      Response 200
                        (DeviceStatus (device.device_id dev)
                           (if isOnline now dev then ''online'' else ''offline'')
                           (last_seen dev)
                           (double (of_int (Math_round (double (minutesSinceLastSeen now dev * 10)))
                              / 10))
                           latest))
           in (if ord = UpdateThenSelect \<and> exited s1 \<noteq> None then None else Some answer, s1)))"

subsection \<open>\<^verbatim>\<open>GET /api/history\<close>\<close>

definition gapMinutes :: "status_update \<Rightarrow> status_update \<Rightarrow> rat" where
  "gapMinutes current nxt =
     minutes (new_Date (server_timestamp current) - new_Date (server_timestamp nxt))"

text \<open>The decimal digits of \<open>i\<close>, as the template string \<^verbatim>\<open>`offline_${i}`\<close> prints them.\<close>

fun toString :: "nat \<Rightarrow> string" where
  "toString n =
     (if n < 10 then [''0123456789'' ! n]
      else toString (n div 10) @ [''0123456789'' ! (n mod 10)])"

text \<open>\<^verbatim>\<open>current.getTime() - gapMinutes * 60 * 1000 / 2\<close>, each operation in doubles.\<close>

definition offline_marker_at :: "nat \<Rightarrow> status_update \<Rightarrow> status_update \<Rightarrow> offline_marker" where
  "offline_marker_at i current nxt =
     \<lparr>offline_marker.id = ''offline_'' @ toString i,
      offline_marker.device_id = device_id current,
      offline_marker.status = ''offline'',
      offline_marker.server_timestamp =
        TimeClip (double (of_int (new_Date (server_timestamp current))
          - double (double (double (gapMinutes current nxt * 60) * 1000) / 2))),
      is_offline_marker = True\<rparr>"

text \<open>
  The loop over \<^verbatim>\<open>rows\<close>: \<open>i\<close> is the index of the first row of the list, and a row has a
  successor exactly when \<^verbatim>\<open>i < rows.length - 1\<close>.
\<close>

fun processedRows :: "nat \<Rightarrow> status_update list \<Rightarrow> history_entry list" where
  "processedRows i [] = []"
| "processedRows i [r] = [Row r]"
| "processedRows i (r # n # rows) =
     Row r # (if gapMinutes r n > 1 then [Marker (offline_marker_at i r n)] else [])
       @ processedRows (Suc i) (n # rows)"

text \<open>
  \<open>parsed\<close> is the value of \<^verbatim>\<open>parseInt(req.query.limit)\<close>, \<open>None\<close> for \<^verbatim>\<open>NaN\<close> (the parameter
  is absent or does not start with a number).
\<close>

definition or_int :: "int option \<Rightarrow> int \<Rightarrow> int" where
  "or_int v d = (case v of None \<Rightarrow> d | Some x \<Rightarrow> if x = 0 then d else x)"

definition history_limit :: "int option \<Rightarrow> int" where
  "history_limit parsed = or_int parsed 100"

definition get_history :: "faults \<Rightarrow> int option \<Rightarrow> state \<Rightarrow> response" where
  "get_history F parsed s =
     (case db_query (F HistorySelect) (select_history (history_limit parsed) s) of
        Inl msg \<Rightarrow> Response 500 (ErrorMessage msg)
      | Inr rows \<Rightarrow> Response 200 (History (rev (processedRows 0 rows))))"

subsection \<open>\<^verbatim>\<open>GET /api/stats\<close>\<close>

definition sql_min :: "int list \<Rightarrow> int option" where
  "sql_min xs = (if xs = [] then None else Some (Min (set xs)))"

definition sql_max :: "int list \<Rightarrow> int option" where
  "sql_max xs = (if xs = [] then None else Some (Max (set xs)))"

definition sql_sum :: "int list \<Rightarrow> int option" where
  "sql_sum xs = (if xs = [] then None else Some (sum_list xs))"

definition get_stats :: "faults \<Rightarrow> state \<Rightarrow> response" where
  "get_stats F s =
     (case db_query (F StatsSelect) (status_updates s) of
        Inl msg \<Rightarrow> Response 500 (ErrorMessage msg)
      | Inr rows \<Rightarrow>
          Response 200
            (Stats (length rows)
               (sql_min (map server_timestamp rows))
               (sql_max (map server_timestamp rows))
               (sql_sum (map (\<lambda>r. if is_boot r = 1 then 1 else 0) rows))))"

subsection \<open>The sweep\<close>

text \<open>
  One tick of the timer. \<^verbatim>\<open>forEach\<close> runs over the rows the \<^verbatim>\<open>SELECT\<close> returned: for
  every row that is due it logs at once and hands an \<^verbatim>\<open>UPDATE\<close> (no callback) and an
  \<^verbatim>\<open>INSERT\<close> (its callback logs an error) to the driver, which runs them afterwards, here
  in the order of the source. The whole tick reads one value of the clock.
\<close>

definition sweep_due :: "int \<Rightarrow> device \<Rightarrow> bool" where
  "sweep_due now dev = (minutesSinceLastSeen now dev \<ge> 1 \<and> device.status dev = ''online'')"

text \<open>The values of the \<^verbatim>\<open>INSERT\<close> of the sweep, with the id \<open>n\<close>.\<close>

definition sweep_row :: "int \<Rightarrow> nat \<Rightarrow> device \<Rightarrow> status_update" where
  "sweep_row now n dev =
     \<lparr>id = n, device_id = device.device_id dev, status = ''offline'',
      uptime_seconds = Num 0, ip_address = [], rssi = Num 0, free_heap = Num 0,
      is_boot = 0, timestamp = Num now, server_timestamp = CURRENT_TIMESTAMP now\<rparr>"

text \<open>What \<^verbatim>\<open>forEach\<close> does with a row at once, and the statements it leaves to the driver.\<close>

definition sweep_log :: "int \<Rightarrow> device \<Rightarrow> state \<Rightarrow> state" where
  "sweep_log now dev s =
     (if sweep_due now dev
      then console_log (DetectedOffline (device.device_id dev)
             (Math_round (minutesSinceLastSeen now dev))) s
      else s)"

definition sweep_device :: "faults \<Rightarrow> int \<Rightarrow> device \<Rightarrow> state \<Rightarrow> state" where
  "sweep_device F now dev s =
     (if sweep_due now dev
      then
        (let s1 = db_run (F (SweepUpdate (device.device_id dev)))
                    (update_device_offline (device.device_id dev)) s
         in if exited s1 \<noteq> None then s1
            else case F (SweepInsert (device.device_id dev)) of
                   None \<Rightarrow> insert_status_update (sweep_row now 0 dev) s1
                 | Some msg \<Rightarrow> console_log (ErrorInsertingOfflineMarker msg) s1)
      else s)"

definition sweep :: "faults \<Rightarrow> int \<Rightarrow> state \<Rightarrow> state" where
  "sweep F now s =
     (case db_query (F SweepSelect) (devices s) of
        Inl msg \<Rightarrow> console_log (ErrorCheckingDevices msg) s
      | Inr rows \<Rightarrow> fold (sweep_device F now) rows (fold (sweep_log now) rows s))"

subsection \<open>Observations\<close>

text \<open>What the statements below read off a response, a table or the console.\<close>

definition response_status :: "response option \<Rightarrow> string option" where
  "response_status r =
     (case r of
        Some (Response _ (DeviceStatus _ st _ _ _)) \<Rightarrow> Some st
      | Some (Response _ (NoDeviceData st _)) \<Rightarrow> Some st
      | _ \<Rightarrow> None)"

definition response_entries :: "response \<Rightarrow> history_entry list" where
  "response_entries r = (case r of Response _ (History es) \<Rightarrow> es | _ \<Rightarrow> [])"

definition select_device :: "string \<Rightarrow> state \<Rightarrow> device option" where
  "select_device k s = find (\<lambda>d. device.device_id d = k) (devices s)"

definition reports_of :: "string \<Rightarrow> state \<Rightarrow> status_update list" where
  "reports_of k s = filter (\<lambda>r. device_id r = k) (status_updates s)"


definition upsert_applied :: "faults \<Rightarrow> post_order \<Rightarrow> bool" where
  "upsert_applied F ord =
     (F PostUpsert = None \<and>
      (F PostInsert = None \<or> ord \<in> {SelectUpsertInsert, UpsertInsertSelect, UpsertSelectInsert}))"



fun offline_event_of :: "string \<Rightarrow> log_entry \<Rightarrow> bool" where
  "offline_event_of k (WentOffline k' _) = (k' = k)"
| "offline_event_of k (DetectedOffline k' _) = (k' = k)"
| "offline_event_of k _ = False"

definition offline_events :: "string \<Rightarrow> state \<Rightarrow> log_entry list" where
  "offline_events k s = filter (offline_event_of k) (console s)"

text \<open>An id of a JSON object of the history: a number for a stored row, a string for a marker.\<close>

datatype json_id = IdNumber nat | IdString string

fun entry_id :: "history_entry \<Rightarrow> json_id" where
  "entry_id (Row r) = IdNumber (id r)"
| "entry_id (Marker m) = IdString (offline_marker.id m)"

fun entry_time :: "history_entry \<Rightarrow> int" where
  "entry_time (Row r) = new_Date (server_timestamp r)"
| "entry_time (Marker m) = offline_marker.server_timestamp m"

fun is_marker :: "history_entry \<Rightarrow> bool" where
  "is_marker (Row _) = False"
| "is_marker (Marker _) = True"

fun is_row :: "history_entry \<Rightarrow> bool" where
  "is_row (Row _) = True"
| "is_row (Marker _) = False"

fun marker_time :: "history_entry \<Rightarrow> int option" where
  "marker_time (Row _) = None"
| "marker_time (Marker m) = Some (offline_marker.server_timestamp m)"

text \<open>
  The entries that belong to the row at index \<open>j\<close> of \<open>rows\<close>, read off the description of
  the gap synthesis: the row, followed by one marker when the row has a successor and the
  gap to it exceeds one minute.
\<close>

definition spec_entries :: "status_update list \<Rightarrow> nat \<Rightarrow> history_entry list" where
  "spec_entries rows j =
     Row (rows ! j) #
       (if Suc j < length rows \<and> gapMinutes (rows ! j) (rows ! Suc j) > 1
        then [Marker (offline_marker_at j (rows ! j) (rows ! Suc j))] else [])"

text \<open>
  The time of the marker between rows at \<open>C\<close> and \<open>N\<close> milliseconds, and the dates a
  \<^verbatim>\<open>DATETIME\<close> column can hold from 1970 on (up to the end of the year 9999).
\<close>

definition marker_ms :: "int \<Rightarrow> int \<Rightarrow> int" where
  "marker_ms C N =
     TimeClip (double (of_int C - double (double (double (minutes (C - N) * 60) * 1000) / 2)))"

definition datetime_range :: "int \<Rightarrow> bool" where
  "datetime_range t = (0 \<le> t \<and> t \<le> 253402300799)"

text \<open>The rows a tick of the sweep inserts, given the last id handed out before it.\<close>

fun sweep_rows :: "int \<Rightarrow> nat \<Rightarrow> device list \<Rightarrow> status_update list" where
  "sweep_rows now n [] = []"
| "sweep_rows now n (d # ds) =
     (if sweep_due now d then sweep_row now (Suc n) d # sweep_rows now (Suc n) ds
      else sweep_rows now n ds)"

subsection \<open>Example states\<close>

definition empty_state :: state where
  "empty_state =
     \<lparr>status_updates = [], sqlite_sequence = 0, devices = [], console = [], exited = None\<rparr>"

definition empty_body :: body where
  "empty_body =
     \<lparr>body.device_id = None, body.status = None, body.uptime_seconds = None,
      body.ip_address = None, body.rssi = None, body.free_heap = None,
      body.is_boot = None, body.timestamp = None\<rparr>"

definition esp32_body :: "string \<Rightarrow> string \<Rightarrow> body" where
  "esp32_body k st = empty_body\<lparr>body.device_id := Some k, body.status := Some st\<rparr>"

definition one_device :: state where
  "one_device =
     snd (post_status no_faults InsertSelectUpsert (esp32_body ''esp32'' ''online'') 100000
            empty_state)"

definition esp32_row :: device where
  "esp32_row =
     \<lparr>device.device_id = ''esp32'', last_seen = 100, total_uptime = 0, device.status = ''online''\<rparr>"

text \<open>Three reports of two devices, at 600 s, 660 s and 900 s of server time.\<close>

definition three_reports :: state where
  "three_reports =
     snd (post_status no_faults InsertSelectUpsert (esp32_body ''esp32-b'' ''online'') 900000
       (snd (post_status no_faults InsertSelectUpsert (esp32_body ''esp32-a'' ''online'') 660000
         (snd (post_status no_faults InsertSelectUpsert (esp32_body ''esp32-a'' ''online'') 600000
                empty_state)))))"

text \<open>Two reports, at 1 s and 125 s of server time.\<close>

definition early_reports :: state where
  "early_reports =
     snd (post_status no_faults InsertSelectUpsert (esp32_body ''esp32'' ''online'') 125000
       (snd (post_status no_faults InsertSelectUpsert (esp32_body ''esp32'' ''online'') 1000
                empty_state)))"


text \<open>Every statement fails.\<close>

definition all_fail :: faults where
  "all_fail = (\<lambda>_. Some ''SQLITE_IOERR: disk I/O error'')"

section \<open>Properties\<close>

subsection \<open>Rounding to doubles\<close>

lemma exponent_bounds:
  assumes "x \<noteq> 0"
  shows "2 powi exponent x \<le> \<bar>x\<bar>" and "\<bar>x\<bar> < 2 powi (exponent x + 1)"
proof -
  show "2 powi exponent x \<le> \<bar>x\<bar>"
  proof (cases "1 \<le> \<bar>x\<bar>")
    case True
    let ?m = "\<lfloor>\<bar>x\<bar>\<rfloor>"
    have m: "0 < ?m" using True by simp
    have "(2::int) ^ nat (bitlen ?m - 1) \<le> ?m"
      using bitlen_bounds [OF m] by simp
    then have "(of_int ((2::int) ^ nat (bitlen ?m - 1)) :: rat) \<le> of_int ?m"
      by (simp only: of_int_le_iff)
    also have "\<dots> \<le> \<bar>x\<bar>" by simp
    finally have "(2::rat) ^ nat (bitlen ?m - 1) \<le> \<bar>x\<bar>" by simp
    moreover have "0 \<le> bitlen ?m - 1"
      using m by (simp add: bitlen_alt_def)
    ultimately show ?thesis
      using True by (simp add: exponent_def power_int_nonneg_exp)
  next
    case False
    let ?y = "1 / \<bar>x\<bar>"
    let ?m = "\<lceil>?y\<rceil> - 1"
    have x: "0 < \<bar>x\<bar>" "\<bar>x\<bar> < 1" using assms False by simp_all
    then have y: "1 < ?y" by (simp add: field_simps)
    then have m: "0 < ?m" by (simp add: less_ceiling_iff)
    have "?m < 2 ^ nat (bitlen ?m)"
      using bitlen_bounds [OF m] by simp
    then have "\<lceil>?y\<rceil> \<le> 2 ^ nat (bitlen ?m)" by simp
    then have "(of_int \<lceil>?y\<rceil> :: rat) \<le> of_int (2 ^ nat (bitlen ?m))"
      by (simp only: of_int_le_iff)
    moreover have "?y \<le> of_int \<lceil>?y\<rceil>"
      by (rule le_of_int_ceiling)
    ultimately have "?y \<le> of_int (2 ^ nat (bitlen ?m))"
      by (rule order_trans [rotated])
    then have "?y \<le> 2 ^ nat (bitlen ?m)"
      by simp
    then have "1 / 2 ^ nat (bitlen ?m) \<le> \<bar>x\<bar>"
      using x by (simp add: field_simps)
    then show ?thesis
      using False bitlen_nonneg [of ?m]
      by (simp add: exponent_def power_int_minus_divide power_int_nonneg_exp)
  qed
  show "\<bar>x\<bar> < 2 powi (exponent x + 1)"
  proof (cases "1 \<le> \<bar>x\<bar>")
    case True
    let ?m = "\<lfloor>\<bar>x\<bar>\<rfloor>"
    have m: "0 < ?m" using True by simp
    have "?m < 2 ^ nat (bitlen ?m)"
      using bitlen_bounds [OF m] by simp
    then have "?m + 1 \<le> 2 ^ nat (bitlen ?m)" by simp
    then have "(of_int (?m + 1) :: rat) \<le> of_int (2 ^ nat (bitlen ?m))"
      by (simp only: of_int_le_iff)
    moreover have "\<bar>x\<bar> < of_int (?m + 1)" by linarith
    ultimately have "\<bar>x\<bar> < 2 ^ nat (bitlen ?m)" by simp
    then show ?thesis
      using True bitlen_nonneg [of ?m] by (simp add: exponent_def power_int_nonneg_exp)
  next
    case False
    let ?y = "1 / \<bar>x\<bar>"
    let ?m = "\<lceil>?y\<rceil> - 1"
    have x: "0 < \<bar>x\<bar>" "\<bar>x\<bar> < 1" using assms False by simp_all
    then have y: "1 < ?y" by (simp add: field_simps)
    then have m: "0 < ?m" by (simp add: less_ceiling_iff)
    then have b: "1 \<le> bitlen ?m" by (simp add: bitlen_alt_def)
    have "(2::int) ^ nat (bitlen ?m - 1) \<le> ?m"
      using bitlen_bounds [OF m] by simp
    then have "(of_int ((2::int) ^ nat (bitlen ?m - 1)) :: rat) \<le> of_int ?m"
      by (simp only: of_int_le_iff)
    moreover have "of_int ?m < ?y" by linarith
    ultimately have "2 ^ nat (bitlen ?m - 1) < ?y" by simp
    then have "\<bar>x\<bar> < 1 / 2 ^ nat (bitlen ?m - 1)"
      using x by (simp add: field_simps)
    moreover have "(2::rat) powi (- bitlen ?m + 1) = 1 / 2 ^ nat (bitlen ?m - 1)"
      using b power_int_minus_divide [of "2::rat" "bitlen ?m - 1"]
      by (simp add: power_int_nonneg_exp)
    ultimately show ?thesis
      using False by (simp add: exponent_def)
  qed
qed


lemma roundTiesToEven_error: "\<bar>of_int (roundTiesToEven y) - y\<bar> \<le> 1 / 2"
  unfolding roundTiesToEven_def by (auto simp add: abs_if) linarith+

lemma roundTiesToEven_of_int [simp]: "roundTiesToEven (of_int m) = m"
  by (simp add: roundTiesToEven_def)

lemma roundTiesToEven_ge: "of_int m \<le> y \<Longrightarrow> m \<le> roundTiesToEven y"
proof -
  assume "of_int m \<le> y"
  then have "m \<le> \<lfloor>y\<rfloor>" by (simp add: le_floor_iff)
  moreover have "\<lfloor>y\<rfloor> \<le> roundTiesToEven y" by (simp add: roundTiesToEven_def)
  ultimately show ?thesis by simp
qed

lemma roundTiesToEven_near: "\<bar>y - of_int m\<bar> < 1 / 2 \<Longrightarrow> roundTiesToEven y = m"
  unfolding roundTiesToEven_def by (auto simp add: abs_if split: if_splits) linarith+


lemma double_error: "\<bar>double x - x\<bar> \<le> \<bar>x\<bar> / 2 ^ 53"
proof (cases "x = 0")
  case True
  then show ?thesis by (simp add: double_def)
next
  case False
  let ?e = "exponent x"
  let ?y = "x * 2 powi (52 - ?e)"
  have split: "(2::rat) powi (52 - ?e) * 2 powi (?e - 52) = 1"
    by (simp add: power_int_add [symmetric])
  have "double x - x = (of_int (roundTiesToEven ?y) - ?y) * 2 powi (?e - 52)"
    using False split by (simp add: double_def algebra_simps)
  then have "\<bar>double x - x\<bar> = \<bar>of_int (roundTiesToEven ?y) - ?y\<bar> * 2 powi (?e - 52)"
    by (simp add: abs_mult)
  also have "\<dots> \<le> (1 / 2) * 2 powi (?e - 52)"
    by (rule mult_right_mono [OF roundTiesToEven_error]) simp
  also have "\<dots> = 2 powi ?e / 2 ^ 53"
    by (simp add: power_int_diff)
  also have "\<dots> \<le> \<bar>x\<bar> / 2 ^ 53"
    using exponent_bounds(1) [OF False] by (simp add: divide_right_mono)
  finally show ?thesis .
qed

lemma double_of_int:
  assumes "\<bar>k\<bar> \<le> 2 ^ 53"
  shows "double (of_int k) = of_int k"
proof (cases "k = 0")
  case True
  then show ?thesis by (simp add: double_def)
next
  case False
  let ?x = "of_int k :: rat"
  let ?e = "exponent ?x"
  have x: "?x \<noteq> 0" using False by simp
  have split: "(2::rat) powi (52 - ?e) * 2 powi (?e - 52) = 1"
    by (simp add: power_int_add [symmetric])
  have "\<exists>m. ?x * 2 powi (52 - ?e) = of_int m"
  proof (cases "?e \<le> 52")
    case True
    then have "(2::rat) powi (52 - ?e) = of_int (2 ^ nat (52 - ?e))"
      by (simp add: power_int_nonneg_exp)
    then have "?x * 2 powi (52 - ?e) = of_int (k * 2 ^ nat (52 - ?e))"
      by simp
    then show ?thesis ..
  next
    case False
    then have "53 \<le> ?e" by simp
    then have "(2::rat) powi 53 \<le> 2 powi ?e"
      by (intro power_int_increasing) simp_all
    also have "\<dots> \<le> \<bar>?x\<bar>" by (rule exponent_bounds(1) [OF x])
    finally have "(2::rat) ^ 53 \<le> \<bar>?x\<bar>" by simp
    moreover have "\<bar>?x\<bar> \<le> 2 ^ 53"
      using assms by (metis of_int_abs of_int_le_iff of_int_numeral of_int_power)
    ultimately have a: "\<bar>?x\<bar> = 2 ^ 53" by simp
    then have "\<bar>?x\<bar> < 2 powi 54" by simp
    have "?e < 54"
    proof (rule ccontr)
      assume "\<not> ?e < 54"
      then have "(2::rat) powi 54 \<le> 2 powi ?e"
        by (intro power_int_increasing) simp_all
      also have "\<dots> \<le> \<bar>?x\<bar>" by (rule exponent_bounds(1) [OF x])
      finally show False using a by simp
    qed
    with \<open>53 \<le> ?e\<close> have e: "?e = 53" by simp
    have "\<bar>k\<bar> = 2 ^ 53"
      using a by (metis of_int_abs of_int_eq_iff of_int_numeral of_int_power)
    then have "k = 2 ^ 53 \<or> k = - (2 ^ 53)" by linarith
    then have "?x * 2 powi (52 - ?e) = of_int (2 ^ 52) \<or> ?x * 2 powi (52 - ?e) = of_int (- (2 ^ 52))"
      unfolding e by auto
    then show ?thesis by blast
  qed
  then obtain m where m: "?x * 2 powi (52 - ?e) = of_int m" ..
  have "double ?x = of_int m * 2 powi (?e - 52)"
    using x by (simp add: double_def m)
  also have "\<dots> = ?x * (2 powi (52 - ?e) * 2 powi (?e - 52))"
    by (simp add: m [symmetric])
  also have "\<dots> = ?x" by (simp only: split mult_1_right)
  finally show ?thesis .
qed

lemma double_ge_pow2:
  assumes "2 powi j \<le> x"
  shows "2 powi j \<le> double x"
proof -
  have pos: "0 < x" using assms by (rule less_le_trans [rotated]) simp
  then have x: "x \<noteq> 0" by simp
  let ?e = "exponent x"
  have "\<not> ?e < j"
  proof
    assume "?e < j"
    then have "(2::rat) powi (?e + 1) \<le> 2 powi j"
      by (intro power_int_increasing) simp_all
    moreover have "x < 2 powi (?e + 1)"
      using exponent_bounds(2) [OF x] pos by simp
    ultimately show False using assms by simp
  qed
  then have je: "j \<le> ?e" by simp
  have "(2::rat) powi ?e * 2 powi (52 - ?e) \<le> x * 2 powi (52 - ?e)"
    using exponent_bounds(1) [OF x] pos by (intro mult_right_mono) simp_all
  then have "of_int (2 ^ 52) \<le> x * 2 powi (52 - ?e)"
    by (simp add: power_int_add [symmetric])
  then have "2 ^ 52 \<le> roundTiesToEven (x * 2 powi (52 - ?e))"
    by (rule roundTiesToEven_ge)
  then have "(of_int (2 ^ 52) :: rat) \<le> of_int (roundTiesToEven (x * 2 powi (52 - ?e)))"
    by (simp only: of_int_le_iff)
  then have "of_int (2 ^ 52) * 2 powi (?e - 52) \<le> double x"
    using x by (simp add: double_def)
  moreover have "(of_int (2 ^ 52) :: rat) * 2 powi (?e - 52) = 2 powi ?e"
    by (simp add: power_int_diff)
  moreover have "(2::rat) powi j \<le> 2 powi ?e"
    using je by (intro power_int_increasing) simp_all
  ultimately show ?thesis by simp
qed


lemma double_nonneg: "0 \<le> x \<Longrightarrow> 0 \<le> double x"
  using double_error [of x] by (simp add: abs_if field_simps split: if_splits)

lemma double_nonpos: "x \<le> 0 \<Longrightarrow> double x \<le> 0"
  using double_error [of x] by (simp add: abs_if field_simps split: if_splits)

lemma double_upper: "0 \<le> x \<Longrightarrow> double x \<le> x * (1 + 1 / 2 ^ 53)"
  using double_error [of x] by (simp add: abs_if field_simps split: if_splits)

lemma double_lower: "0 \<le> x \<Longrightarrow> x * (1 - 1 / 2 ^ 53) \<le> double x"
  using double_error [of x] by (simp add: abs_if field_simps split: if_splits)

lemma double_ge_grid:
  assumes "x \<noteq> 0" and "of_int m * 2 powi (exponent x - 52) \<le> x"
  shows "of_int m * 2 powi (exponent x - 52) \<le> double x"
proof -
  let ?e = "exponent x"
  have split: "(2::rat) powi (?e - 52) * 2 powi (52 - ?e) = 1"
    by (simp add: power_int_add [symmetric])
  have "of_int m * 2 powi (?e - 52) * 2 powi (52 - ?e) \<le> x * 2 powi (52 - ?e)"
    using assms(2) by (intro mult_right_mono) simp_all
  then have "of_int m \<le> x * 2 powi (52 - ?e)"
    by (simp add: mult.assoc split)
  then have "m \<le> roundTiesToEven (x * 2 powi (52 - ?e))"
    by (rule roundTiesToEven_ge)
  then have "(of_int m :: rat) \<le> of_int (roundTiesToEven (x * 2 powi (52 - ?e)))"
    by (simp only: of_int_le_iff)
  then show ?thesis
    using assms(1) by (simp add: double_def mult_right_mono)
qed

lemma double_ge_60:
  assumes "60 \<le> x"
  shows "60 \<le> double x"
proof (cases "64 \<le> x")
  case True
  then have "2 powi 6 \<le> x" by simp
  then have "2 powi 6 \<le> double x" by (rule double_ge_pow2)
  then show ?thesis by simp
next
  case False
  have x: "x \<noteq> 0" "0 < x" using assms by simp_all
  let ?e = "exponent x"
  have "?e < 6"
  proof (rule ccontr)
    assume "\<not> ?e < 6"
    then have "(2::rat) powi 6 \<le> 2 powi ?e"
      by (intro power_int_increasing) simp_all
    also have "\<dots> \<le> \<bar>x\<bar>" by (rule exponent_bounds(1) [OF x(1)])
    finally show False using False x by simp
  qed
  moreover have "4 < ?e"
  proof (rule ccontr)
    assume "\<not> 4 < ?e"
    then have "(2::rat) powi (?e + 1) \<le> 2 powi 5"
      by (intro power_int_increasing) simp_all
    moreover have "\<bar>x\<bar> < 2 powi (?e + 1)" by (rule exponent_bounds(2) [OF x(1)])
    ultimately show False using assms by simp
  qed
  ultimately have e: "?e = 5" by simp
  have "of_int (60 * 2 ^ 47) * 2 powi (?e - 52) \<le> double x"
    by (rule double_ge_grid [OF x(1)]) (use assms in \<open>simp add: e\<close>)
  then show ?thesis by (simp add: e)
qed

text \<open>\<^verbatim>\<open>ms / 1000 / 60\<close> is below, at or above 1 exactly where the quotient of the integers is.\<close>

lemma minutes_60000: "minutes 60000 = 1"
proof -
  have "double (of_int 60) = of_int 60" by (rule double_of_int) simp
  moreover have "double (of_int 1) = of_int 1" by (rule double_of_int) simp
  ultimately show ?thesis by (simp add: minutes_def)
qed

lemma minutes_below:
  assumes "d < 60000"
  shows "minutes d < 1"
proof (cases "d \<le> 0")
  case True
  then have "double (of_int d / 1000) \<le> 0" by (intro double_nonpos) simp
  then have "double (double (of_int d / 1000) / 60) \<le> 0" by (intro double_nonpos) simp
  then show ?thesis by (simp add: minutes_def)
next
  case False
  let ?x = "rat_of_int d / 1000"
  let ?y = "double ?x"
  have d: "rat_of_int d \<le> 59999" using assms by simp
  have x: "0 \<le> ?x" "?x \<le> 59999 / 1000" using False d by simp_all
  have y0: "0 \<le> ?y" using x(1) by (rule double_nonneg)
  have "?y \<le> ?x * (1 + 1 / 2 ^ 53)" using x(1) by (rule double_upper)
  also have "\<dots> \<le> 59999 / 1000 * (1 + 1 / 2 ^ 53)"
    using x(2) by (intro mult_right_mono) simp_all
  finally have y: "?y / 60 \<le> 59999 / 1000 * (1 + 1 / 2 ^ 53) / 60" by simp
  have "double (?y / 60) \<le> ?y / 60 * (1 + 1 / 2 ^ 53)"
    using y0 by (intro double_upper) simp
  also have "\<dots> \<le> 59999 / 1000 * (1 + 1 / 2 ^ 53) / 60 * (1 + 1 / 2 ^ 53)"
    using y by (intro mult_right_mono) simp_all
  also have "\<dots> < 1" by simp
  finally show ?thesis by (simp add: minutes_def)
qed

lemma minutes_above:
  assumes "60000 < d"
  shows "1 < minutes d"
proof -
  let ?x = "rat_of_int d / 1000"
  let ?y = "double ?x"
  have d: "60001 \<le> rat_of_int d" using assms by linarith
  have x: "0 \<le> ?x" "60001 / 1000 \<le> ?x" using d by simp_all
  have "60001 / 1000 * (1 - 1 / 2 ^ 53) \<le> ?x * (1 - 1 / 2 ^ 53)"
    using x(2) by (intro mult_right_mono) simp_all
  also have "\<dots> \<le> ?y" using x(1) by (rule double_lower)
  finally have y: "60001 / 1000 * (1 - 1 / 2 ^ 53) / 60 \<le> ?y / 60" by simp
  have y0: "0 \<le> ?y / 60" using double_nonneg [OF x(1)] by simp
  have "1 < 60001 / 1000 * (1 - 1 / 2 ^ 53) / 60 * (1 - 1 / 2 ^ 53 :: rat)" by simp
  also have "\<dots> \<le> ?y / 60 * (1 - 1 / 2 ^ 53)"
    using y by (intro mult_right_mono) simp_all
  also have "\<dots> \<le> double (?y / 60)" using y0 by (rule double_lower)
  finally show ?thesis by (simp add: minutes_def)
qed

lemma minutes_at_least:
  assumes "60000 \<le> d"
  shows "1 \<le> minutes d"
proof -
  have "60 \<le> rat_of_int d / 1000" using assms by simp
  then have "60 \<le> double (rat_of_int d / 1000)" by (rule double_ge_60)
  then have "2 powi 0 \<le> double (rat_of_int d / 1000) / 60" by simp
  then have "2 powi 0 \<le> double (double (rat_of_int d / 1000) / 60)" by (rule double_ge_pow2)
  then show ?thesis by (simp add: minutes_def)
qed

lemma minutes_lt_1: "(minutes d < 1) = (d < 60000)"
  using minutes_below [of d] minutes_at_least [of d] by (cases "d < 60000") simp_all

lemma minutes_ge_1: "(minutes d \<ge> 1) = (d \<ge> 60000)"
  using minutes_lt_1 [of d] by (simp add: not_less [symmetric])

lemma minutes_gt_1: "(minutes d > 1) = (d > 60000)"
proof (cases "d < 60000")
  case True
  then show ?thesis using minutes_below [of d] by simp
next
  case False
  then show ?thesis
    using minutes_above [of d] minutes_60000 by (cases "d = 60000") simp_all
qed

text \<open>Relative errors of the operations that lead from a gap to its half in milliseconds.\<close>

lemma double_rel:
  assumes "\<bar>a - A\<bar> \<le> \<epsilon> * A" and "0 \<le> A" and "0 \<le> \<epsilon>"
  shows "\<bar>double a - A\<bar> \<le> (\<epsilon> + (1 + \<epsilon>) / 2 ^ 53) * A"
proof -
  have "\<bar>a\<bar> \<le> \<bar>a - A\<bar> + \<bar>A\<bar>" by simp
  also have "\<dots> \<le> \<epsilon> * A + A" using assms(1,2) by simp
  finally have a: "\<bar>a\<bar> \<le> (1 + \<epsilon>) * A" by (simp add: algebra_simps)
  have "\<bar>double a - A\<bar> \<le> \<bar>double a - a\<bar> + \<bar>a - A\<bar>" by simp
  also have "\<dots> \<le> \<bar>a\<bar> / 2 ^ 53 + \<epsilon> * A"
    using double_error [of a] assms(1) by simp
  also have "\<dots> \<le> (1 + \<epsilon>) * A / 2 ^ 53 + \<epsilon> * A"
    using a by (simp add: divide_right_mono)
  finally show ?thesis by (simp add: algebra_simps)
qed

lemma scale_rel:
  fixes a A c \<epsilon> :: rat
  assumes "\<bar>a - A\<bar> \<le> \<epsilon> * A" and "0 \<le> c"
  shows "\<bar>a * c - A * c\<bar> \<le> \<epsilon> * (A * c)"
proof -
  have "a * c - A * c = (a - A) * c" by (simp add: algebra_simps)
  then have "\<bar>a * c - A * c\<bar> = \<bar>a - A\<bar> * c"
    using assms(2) by (simp add: abs_mult)
  also have "\<dots> \<le> \<epsilon> * A * c"
    using assms by (intro mult_right_mono) simp_all
  finally show ?thesis by (simp add: mult.assoc)
qed

text \<open>Half the gap, as the source computes it, for a gap of \<open>k\<close> whole seconds.\<close>

lemma half_gap_error:
  assumes "0 \<le> k" and "k \<le> 2 ^ 53"
  shows "\<bar>double (double (double (minutes (1000 * k) * 60) * 1000) / 2) - of_int (500 * k)\<bar>
           \<le> of_int (2200 * k) / 2 ^ 53"
proof -
  let ?K = "rat_of_int k"
  define e1 :: rat where "e1 = 0 + (1 + 0) / 2 ^ 53"
  define e2 :: rat where "e2 = e1 + (1 + e1) / 2 ^ 53"
  define e3 :: rat where "e3 = e2 + (1 + e2) / 2 ^ 53"
  define e4 :: rat where "e4 = e3 + (1 + e3) / 2 ^ 53"
  have K: "0 \<le> ?K" using assms(1) by simp
  have "\<bar>k\<bar> \<le> 2 ^ 53" using assms by simp
  then have "double (of_int k) = ?K" by (rule double_of_int)
  then have m: "minutes (1000 * k) = double (?K / 60)"
    by (simp add: minutes_def)
  have "\<bar>?K / 60 - ?K / 60\<bar> \<le> 0 * (?K / 60)" by simp
  then have "\<bar>double (?K / 60) - ?K / 60\<bar> \<le> e1 * (?K / 60)"
    unfolding e1_def using K by (intro double_rel) simp_all
  then have "\<bar>double (?K / 60) * 60 - ?K / 60 * 60\<bar> \<le> e1 * (?K / 60 * 60)"
    by (rule scale_rel) simp
  then have "\<bar>double (?K / 60) * 60 - ?K\<bar> \<le> e1 * ?K" by simp
  then have "\<bar>double (double (?K / 60) * 60) - ?K\<bar> \<le> e2 * ?K"
    unfolding e2_def using K by (intro double_rel) (simp_all add: e1_def)
  then have "\<bar>double (double (?K / 60) * 60) * 1000 - ?K * 1000\<bar> \<le> e2 * (?K * 1000)"
    by (rule scale_rel) simp
  then have "\<bar>double (double (double (?K / 60) * 60) * 1000) - ?K * 1000\<bar> \<le> e3 * (?K * 1000)"
    unfolding e3_def using K by (intro double_rel) (simp_all add: e2_def e1_def)
  then have "\<bar>double (double (double (?K / 60) * 60) * 1000) * (1 / 2) - ?K * 1000 * (1 / 2)\<bar>
      \<le> e3 * (?K * 1000 * (1 / 2))"
    by (rule scale_rel) simp
  then have "\<bar>double (double (double (?K / 60) * 60) * 1000) / 2 - ?K * 500\<bar> \<le> e3 * (?K * 500)"
    by simp
  then have "\<bar>double (double (double (double (?K / 60) * 60) * 1000) / 2) - ?K * 500\<bar>
      \<le> e4 * (?K * 500)"
    unfolding e4_def using K by (intro double_rel) (simp_all add: e3_def e2_def e1_def)
  moreover have "e4 \<le> (44 / 10) / 2 ^ 53"
    by (simp add: e4_def e3_def e2_def e1_def)
  ultimately have "\<bar>double (double (double (double (?K / 60) * 60) * 1000) / 2) - ?K * 500\<bar>
      \<le> (44 / 10) / 2 ^ 53 * (?K * 500)"
    using K by (meson mult_right_mono order_trans mult_nonneg_nonneg zero_le_numeral)
  then show ?thesis unfolding m by (simp add: algebra_simps)
qed


lemma double_near_int:
  assumes "0 < M" and "M < 2 ^ 53" and "\<bar>w - of_int M\<bar> * (2 ^ 54 + 1) \<le> of_int M"
  shows "double w = of_int M"
proof -
  let ?M = "rat_of_int M"
  let ?e = "exponent w"
  let ?s = "(2::rat) powi (52 - ?e)"
  define d where "d = \<bar>w - ?M\<bar>"
  have M: "1 \<le> ?M" "?M + 1 \<le> 9007199254740992"
  proof -
    show "1 \<le> ?M" using assms(1) by simp
    have "M + 1 \<le> 9007199254740992" using assms(2) by simp
    then have "rat_of_int (M + 1) \<le> rat_of_int 9007199254740992" by (simp only: of_int_le_iff)
    then show "?M + 1 \<le> 9007199254740992" by simp
  qed
  have d0: "0 \<le> d" by (simp add: d_def)
  have d1: "d * 18014398509481984 + d \<le> ?M"
    using assms(3) by (simp add: d_def algebra_simps)
  have d2: "d < 1" using d1 d0 M(2) by linarith
  have dw: "?M - d \<le> w" "w \<le> ?M + d"
    by (simp_all add: d_def abs_if)
  have d3: "d * 18014398509481984 \<le> w" using d1 dw by linarith
  have w: "0 < w" "w < 9007199254740992"
    using d2 M dw by linarith+
  then have w0: "w \<noteq> 0" by simp
  have "\<not> 53 \<le> ?e"
  proof
    assume "53 \<le> ?e"
    then have "(2::rat) powi 53 \<le> 2 powi ?e"
      by (intro power_int_increasing) simp_all
    also have "\<dots> \<le> \<bar>w\<bar>" by (rule exponent_bounds(1) [OF w0])
    finally show False using w by simp
  qed
  then have e: "0 \<le> 52 - ?e" by simp
  then have s: "?s = of_int (2 ^ nat (52 - ?e))"
    by (simp add: power_int_nonneg_exp)
  have spos: "0 < ?s" by simp
  have "w * ?s < 2 powi (?e + 1) * ?s"
    using exponent_bounds(2) [OF w0] w(1) spos by (simp add: mult_strict_right_mono)
  also have "\<dots> = 9007199254740992" by (simp add: power_int_add [symmetric])
  finally have ws: "w * ?s < 9007199254740992" .
  define x where "x = d * ?s"
  define y where "y = w * ?s"
  have "d * 18014398509481984 * ?s \<le> w * ?s"
    by (rule mult_right_mono [OF d3]) simp
  then have "x * 18014398509481984 \<le> y"
    by (simp add: x_def y_def algebra_simps)
  moreover have "y < 9007199254740992" using ws by (simp add: y_def)
  ultimately have "x < 1 / 2" by linarith
  then have near: "d * ?s < 1 / 2" by (simp add: x_def)
  have "w * ?s - ?M * ?s = (w - ?M) * ?s" by (simp add: algebra_simps)
  then have "\<bar>w * ?s - ?M * ?s\<bar> = d * ?s" by (simp add: abs_mult d_def)
  then have "\<bar>w * ?s - of_int (M * 2 ^ nat (52 - ?e))\<bar> < 1 / 2"
    using near by (simp add: s)
  then have "roundTiesToEven (w * ?s) = M * 2 ^ nat (52 - ?e)"
    by (rule roundTiesToEven_near)
  then have "double w = ?M * ?s * 2 powi (?e - 52)"
    using w0 by (simp add: double_def s)
  also have "\<dots> = ?M * (?s * 2 powi (?e - 52))" by (simp add: mult.assoc)
  also have "?s * 2 powi (?e - 52) = 1" by (simp add: power_int_add [symmetric])
  finally show ?thesis by simp
qed

lemma TimeClip_of_int: "TimeClip (of_int x) = x"
  by (simp add: TimeClip_def)

lemma TimeClip_near:
  assumes "0 < M" and "\<bar>t - of_int M\<bar> < 1"
  shows "TimeClip t = M \<or> TimeClip t = M - 1"
proof -
  have t: "rat_of_int M - 1 < t" "t < rat_of_int M + 1"
    using assms(2) by (simp_all add: abs_if split: if_splits)
  have "1 \<le> rat_of_int M" using assms(1) by simp
  then have "0 \<le> t" using t by linarith
  then have c: "TimeClip t = \<lfloor>t\<rfloor>" by (simp add: TimeClip_def)
  have "rat_of_int (M - 1) \<le> t" using t by simp
  then have lo: "M - 1 \<le> \<lfloor>t\<rfloor>" by (simp only: le_floor_iff)
  have "t < rat_of_int (M + 1)" using t by simp
  then have hi: "\<lfloor>t\<rfloor> < M + 1" by (simp only: floor_less_iff)
  show ?thesis using c lo hi by linarith
qed

text \<open>The source's expression for the marker time, for rows at \<open>c\<close> and \<open>n\<close> seconds.\<close>

lemma marker_ms_bounds:
  assumes "0 \<le> n" and "n < c" and "c \<le> 253402300799"
    and "h = double (double (double (minutes (1000 * c - 1000 * n) * 60) * 1000) / 2)"
  shows "\<bar>h - of_int (500 * (c - n))\<bar> \<le> of_int (2200 * (c - n)) / 2 ^ 53"
proof -
  let ?k = "c - n"
  have k: "0 \<le> ?k" "?k \<le> 2 ^ 53" using assms by simp_all
  have "1000 * c - 1000 * n = 1000 * ?k" by simp
  then show ?thesis
    using half_gap_error [OF k] by (simp only: assms(4))
qed

lemma marker_ms_near:
  assumes "0 \<le> n" and "n < c" and "c \<le> 253402300799"
  shows "marker_ms (1000 * c) (1000 * n) = 500 * (c + n)
       \<or> marker_ms (1000 * c) (1000 * n) = 500 * (c + n) - 1"
proof -
  define h where "h = double (double (double (minutes (1000 * c - 1000 * n) * 60) * 1000) / 2)"
  define w where "w = rat_of_int (1000 * c) - h"
  define C where "C = rat_of_int c"
  define N where "N = rat_of_int n"
  have c: "C \<le> 253402300799" "0 \<le> N" "N < C"
    using assms by (simp_all add: C_def N_def)
  have "\<bar>h - of_int (500 * (c - n))\<bar> \<le> of_int (2200 * (c - n)) / 2 ^ 53"
    by (rule marker_ms_bounds [OF assms h_def])
  then have b: "\<bar>h - (500 * C - 500 * N)\<bar> \<le> (2200 * C - 2200 * N) / 9007199254740992"
    by (simp add: C_def N_def)
  have "(2200 * C - 2200 * N) / 9007199254740992 \<le> 1 / 10"
    using c by simp
  with b have b1: "\<bar>h - (500 * C - 500 * N)\<bar> \<le> 1 / 10" by linarith
  have wd: "w = 1000 * C - h" by (simp add: w_def C_def)
  have w1: "\<bar>w - (500 * C + 500 * N)\<bar> \<le> 1 / 10"
    using b1 unfolding wd by (simp add: abs_if split: if_splits)
  have "\<bar>w\<bar> \<le> 500 * C + 500 * N + 1 / 10"
    using w1 c by (simp add: abs_if split: if_splits)
  then have "\<bar>w\<bar> \<le> 1125899906842624" using c by linarith
  then have "\<bar>w\<bar> / 2 ^ 53 \<le> 1 / 8" by simp
  with double_error [of w] have "\<bar>double w - w\<bar> \<le> 1 / 8" by linarith
  with w1 have "\<bar>double w - (500 * C + 500 * N)\<bar> < 1"
    by (simp add: abs_if split: if_splits)
  then have "\<bar>double w - of_int (500 * (c + n))\<bar> < 1"
    by (simp add: C_def N_def algebra_simps)
  moreover have "0 < 500 * (c + n)" using assms by simp
  ultimately have "TimeClip (double w) = 500 * (c + n) \<or> TimeClip (double w) = 500 * (c + n) - 1"
    by (rule TimeClip_near [rotated])
  then show ?thesis
    by (simp only: marker_ms_def w_def h_def)
qed

lemma marker_ms_exact:
  assumes "0 \<le> n" and "n < c" and "c \<le> 253402300799" and "4 * (c - n) \<le> n"
  shows "marker_ms (1000 * c) (1000 * n) = 500 * (c + n)"
proof -
  define h where "h = double (double (double (minutes (1000 * c - 1000 * n) * 60) * 1000) / 2)"
  define w where "w = rat_of_int (1000 * c) - h"
  define C where "C = rat_of_int c"
  define N where "N = rat_of_int n"
  have "rat_of_int (4 * (c - n)) \<le> rat_of_int n"
    using assms(4) by (simp only: of_int_le_iff)
  then have c: "C \<le> 253402300799" "0 \<le> N" "N < C" "4 * C - 4 * N \<le> N"
    using assms(1-3) by (simp_all add: C_def N_def)
  have "\<bar>h - of_int (500 * (c - n))\<bar> \<le> of_int (2200 * (c - n)) / 2 ^ 53"
    by (rule marker_ms_bounds [OF assms(1-3) h_def])
  then have b: "\<bar>h - (500 * C - 500 * N)\<bar> \<le> (2200 * C - 2200 * N) / 9007199254740992"
    by (simp add: C_def N_def)
  have wd: "w = 1000 * C - h" by (simp add: w_def C_def)
  have w1: "\<bar>w - (500 * C + 500 * N)\<bar> \<le> (2200 * C - 2200 * N) / 9007199254740992"
    using b unfolding wd by (simp add: abs_if split: if_splits)
  have "\<bar>w - (500 * C + 500 * N)\<bar> * 18014398509481985
      \<le> (2200 * C - 2200 * N) / 9007199254740992 * 18014398509481985"
    using w1 by (intro mult_right_mono) simp_all
  also have "\<dots> \<le> 500 * C + 500 * N"
    using c by simp
  finally have "\<bar>w - (500 * C + 500 * N)\<bar> * 18014398509481985 \<le> 500 * C + 500 * N" .
  then have near: "\<bar>w - of_int (500 * (c + n))\<bar> * (2 ^ 54 + 1) \<le> of_int (500 * (c + n))"
    by (simp add: C_def N_def algebra_simps)
  have M: "0 < 500 * (c + n)" "500 * (c + n) < 2 ^ 53" using assms by simp_all
  have "double w = of_int (500 * (c + n))" by (rule double_near_int [OF M near])
  then have "TimeClip (double w) = TimeClip (of_int (500 * (c + n)))"
    by (simp only:)
  also have "\<dots> = 500 * (c + n)" by (rule TimeClip_of_int)
  finally show ?thesis
    by (simp only: marker_ms_def w_def h_def)
qed

subsection \<open>Evaluation and the effect of each statement\<close>

lemmas eval_defs =
  post_api_status_def post_status_def post_statement_def get_status_def no_faults_def
  esp32_body_def empty_body_def empty_state_def
  db_run_def db_query_def console_log_def insert_status_update_def report_of_body_def
  or_string_def or_number_def truthy_def CURRENT_TIMESTAMP_def new_Date_def
  select_device_status_def insert_or_replace_device_def update_device_offline_def
  select_latest_device_def select_latest_update_def order_by_desc_def sql_limit_def
  first_row_def select_device_def isOnline_def minutesSinceLastSeen_def
  minutes_lt_1 minutes_ge_1 minutes_gt_1
  response_status_def one_device_def esp32_row_def

lemma console_log_simps [simp]:
  "status_updates (console_log e s) = status_updates s"
  "devices (console_log e s) = devices s"
  "sqlite_sequence (console_log e s) = sqlite_sequence s"
  "console (console_log e s) = console s @ [e]"
  "exited (console_log e s) = exited s"
  by (simp_all add: console_log_def)

lemma insert_status_update_simps [simp]:
  "status_updates (insert_status_update r s) =
     status_updates s @ [r\<lparr>id := Suc (sqlite_sequence s)\<rparr>]"
  "devices (insert_status_update r s) = devices s"
  "sqlite_sequence (insert_status_update r s) = Suc (sqlite_sequence s)"
  "console (insert_status_update r s) = console s"
  "exited (insert_status_update r s) = exited s"
  by (simp_all add: insert_status_update_def)

lemma insert_or_replace_device_simps [simp]:
  "status_updates (insert_or_replace_device k ts st s) = status_updates s"
  "devices (insert_or_replace_device k ts st s) =
     filter (\<lambda>d. device.device_id d \<noteq> k) (devices s) @
       [\<lparr>device.device_id = k, last_seen = ts, total_uptime = 0, device.status = st\<rparr>]"
  "sqlite_sequence (insert_or_replace_device k ts st s) = sqlite_sequence s"
  "console (insert_or_replace_device k ts st s) = console s"
  "exited (insert_or_replace_device k ts st s) = exited s"
  by (simp_all add: insert_or_replace_device_def)

lemma update_device_offline_simps [simp]:
  "status_updates (update_device_offline k s) = status_updates s"
  "devices (update_device_offline k s) =
     map (\<lambda>d. if device.device_id d = k then d\<lparr>device.status := ''offline''\<rparr> else d) (devices s)"
  "sqlite_sequence (update_device_offline k s) = sqlite_sequence s"
  "console (update_device_offline k s) = console s"
  "exited (update_device_offline k s) = exited s"
  by (simp_all add: update_device_offline_def)

lemma db_run_running:
  "exited s = None \<Longrightarrow> db_run None write s = write s"
  "exited s = None \<Longrightarrow> db_run (Some msg) write s = s\<lparr>exited := Some msg\<rparr>"
  by (simp_all add: db_run_def)


subsection \<open>The ingest path\<close>

lemma post_statement_select [simp]:
  "status_updates (post_statement F data now PostSelect s) = status_updates s"
  "devices (post_statement F data now PostSelect s) = devices s"
  "sqlite_sequence (post_statement F data now PostSelect s) = sqlite_sequence s"
  "exited (post_statement F data now PostSelect s) = exited s"
  by (simp_all add: post_statement_def db_query_def split: option.splits sum.splits)

lemma post_statement_exited:
  "exited s \<noteq> None \<Longrightarrow> post_statement F data now op s = s"
  by (auto simp add: post_statement_def db_run_def)

lemma post_statement_insert:
  "exited s = None \<Longrightarrow> F PostInsert = None \<Longrightarrow>
     post_statement F data now PostInsert s = insert_status_update (report_of_body data now) s"
  "exited s = None \<Longrightarrow> F PostInsert = Some msg \<Longrightarrow>
     post_statement F data now PostInsert s = s\<lparr>exited := Some msg\<rparr>"
  by (simp_all add: post_statement_def db_run_def)

lemma post_statement_upsert:
  "exited s = None \<Longrightarrow> F PostUpsert = None \<Longrightarrow>
     post_statement F data now PostUpsert s
       = insert_or_replace_device (or_string (body.device_id data) ''unknown'')
           (CURRENT_TIMESTAMP now) (or_string (body.status data) ''online'') s"
  "exited s = None \<Longrightarrow> F PostUpsert = Some msg \<Longrightarrow>
     post_statement F data now PostUpsert s = s\<lparr>exited := Some msg\<rparr>"
  by (simp_all add: post_statement_def db_run_def)

lemmas post_eval = post_status_def post_statement_insert post_statement_upsert
  post_statement_exited

lemma fst_post_status:
  "fst (post_status F ord data now s) = Response 200 (StatusReceived True ''Status received'')"
  by (simp add: post_status_def)


lemma devices_post_status:
  assumes "upsert_applied F ord" and "exited s = None"
  shows "devices (snd (post_status F ord data now s)) =
     filter (\<lambda>d. device.device_id d \<noteq> or_string (body.device_id data) ''unknown'') (devices s) @
       [\<lparr>device.device_id = or_string (body.device_id data) ''unknown'',
         last_seen = CURRENT_TIMESTAMP now, total_uptime = 0,
         device.status = or_string (body.status data) ''online''\<rparr>]"
proof -
  have up: "F PostUpsert = None"
    using assms(1) by (simp add: upsert_applied_def)
  show ?thesis
  proof (cases "F PostInsert")
    case None
    then show ?thesis
      using up assms(2) by (cases ord) (simp_all add: post_eval)
  next
    case (Some msg)
    then have "ord = SelectUpsertInsert \<or> ord = UpsertInsertSelect \<or> ord = UpsertSelectInsert"
      using assms(1) by (simp add: upsert_applied_def)
    then show ?thesis
      using Some up assms(2) by (elim disjE) (simp_all add: post_eval)
  qed
qed

text \<open>What a post leaves in \<^verbatim>\<open>devices\<close>: the table as it was, or with the row replaced.\<close>

lemma devices_post_status_cases:
  "devices (snd (post_status F ord data now s)) =
     (if devices (snd (post_status F ord data now s)) = devices s then devices s
      else devices (insert_or_replace_device (or_string (body.device_id data) ''unknown'')
         (CURRENT_TIMESTAMP now) (or_string (body.status data) ''online'') s))"
proof (cases "exited s")
  case None
  show ?thesis
  proof (cases "F PostInsert")
    case ins: None
    show ?thesis
    proof (cases "F PostUpsert")
      case up: None
      show ?thesis using None ins up by (cases ord) (simp_all add: post_eval)
    next
      case up: (Some msg)
      show ?thesis using None ins up by (cases ord) (simp_all add: post_eval)
    qed
  next
    case ins: (Some msg)
    show ?thesis
    proof (cases "F PostUpsert")
      case up: None
      show ?thesis using None ins up by (cases ord) (simp_all add: post_eval)
    next
      case up: (Some msg')
      show ?thesis using None ins up by (cases ord) (simp_all add: post_eval)
    qed
  qed
next
  case (Some msg)
  then show ?thesis by (cases ord) (simp_all add: post_eval)
qed

lemma devices_post_status_exited:
  "exited s \<noteq> None \<Longrightarrow> devices (snd (post_status F ord data now s)) = devices s"
  by (cases ord) (simp_all add: post_eval)

lemma find_replaced_row:
  "f x = k \<Longrightarrow> find (\<lambda>d. f d = k) (filter (\<lambda>d. f d \<noteq> k) xs @ [x]) = Some x"
  by (induction xs) auto

lemma select_device_post_status:
  assumes "upsert_applied F ord" and "exited s = None"
  shows "select_device (or_string (body.device_id data) ''unknown'')
           (snd (post_status F ord data now s)) =
         Some \<lparr>device.device_id = or_string (body.device_id data) ''unknown'',
               last_seen = CURRENT_TIMESTAMP now, total_uptime = 0,
               device.status = or_string (body.status data) ''online''\<rparr>"
  using assms by (simp add: select_device_def devices_post_status find_replaced_row)




lemma minutes_90000: "minutes 90000 = 3 / 2"
  by code_simp

text \<open>The primary key stays a key: a post keeps the device ids of the table distinct.\<close>

lemma distinct_devices_post_status:
  assumes "distinct (map device.device_id (devices s))"
  shows "distinct (map device.device_id (devices (snd (post_status F ord data now s))))"
proof -
  have "distinct (map device.device_id (filter (\<lambda>d. device.device_id d \<noteq> k) (devices s)))" for k
    using assms by (simp add: distinct_map_filter)
  then have "distinct (map device.device_id (devices (insert_or_replace_device k ts st s)))"
    for k ts st
    by auto
  then show ?thesis
    using assms devices_post_status_cases [of F ord data now s] by presburger
qed

subsection \<open>Ingest and the device row\<close>




text \<open>
  C8. After a \<^verbatim>\<open>POST /api/status\<close> whose \<^verbatim>\<open>INSERT OR REPLACE\<close> took effect, the row of the
  reporting device has \<^verbatim>\<open>total_uptime\<close> 0, whatever the row held before: the statement
  replaces the row and does not list the column.
\<close>

theorem total_uptime_always_zero:
  assumes "upsert_applied F ord" and "exited s = None"
  shows "(\<exists>d. select_device (or_string (body.device_id data) ''unknown'')
                 (snd (post_status F ord data now s)) = Some d \<and> total_uptime d = 0)
       \<and> (\<forall>d \<in> set (devices (snd (post_status F ord data now s))).
             device.device_id d = or_string (body.device_id data) ''unknown''
               \<longrightarrow> total_uptime d = 0)"
  using assms by (auto simp add: select_device_post_status devices_post_status)

theorem total_uptime_always_zero_witness:
  "upsert_applied no_faults InsertSelectUpsert
   \<and> exited (one_device\<lparr>devices := [esp32_row\<lparr>total_uptime := 3600\<rparr>]\<rparr>) = None
   \<and> select_device ''esp32'' (one_device\<lparr>devices := [esp32_row\<lparr>total_uptime := 3600\<rparr>]\<rparr>)
       = Some (esp32_row\<lparr>total_uptime := 3600\<rparr>)
   \<and> map_option total_uptime
       (select_device ''esp32''
         (snd (post_status no_faults InsertSelectUpsert (esp32_body ''esp32'' ''online'') 130000
                (one_device\<lparr>devices := [esp32_row\<lparr>total_uptime := 3600\<rparr>]\<rparr>)))) = Some 0"
proof -
  have h: "upsert_applied no_faults InsertSelectUpsert"
    "exited (one_device\<lparr>devices := [esp32_row\<lparr>total_uptime := 3600\<rparr>]\<rparr>) = None"
    by (simp_all add: upsert_applied_def eval_defs)
  have k: "or_string (body.device_id (esp32_body ''esp32'' ''online'')) ''unknown'' = ''esp32''"
    by (simp add: eval_defs)
  have before: "select_device ''esp32'' (one_device\<lparr>devices := [esp32_row\<lparr>total_uptime := 3600\<rparr>]\<rparr>)
       = Some (esp32_row\<lparr>total_uptime := 3600\<rparr>)"
    by (simp add: select_device_def esp32_row_def)
  show ?thesis
    using h before
      total_uptime_always_zero [where F=no_faults and ord=InsertSelectUpsert
        and data="esp32_body ''esp32'' ''online''" and now=130000
        and s="one_device\<lparr>devices := [esp32_row\<lparr>total_uptime := 3600\<rparr>]\<rparr>", OF h]
    by (auto simp add: k)
qed

text \<open>
  C9. A \<^verbatim>\<open>POST /api/status\<close> whose \<^verbatim>\<open>INSERT OR REPLACE\<close> took effect sets \<^verbatim>\<open>last_seen\<close> of the
  reporting device to the server's \<^verbatim>\<open>CURRENT_TIMESTAMP\<close>; the \<^verbatim>\<open>devices\<close> table after the
  post does not depend on the \<^verbatim>\<open>timestamp\<close> field of the body; and of two successive posts
  of one device, the second at a server time not before the first, the second leaves a
  \<^verbatim>\<open>last_seen\<close> that is not smaller.
\<close>

theorem last_seen_ignores_client_time:
  assumes "upsert_applied F ord" and "upsert_applied F' ord'" and "exited s = None"
    and "or_string (body.device_id data') ''unknown'' = or_string (body.device_id data) ''unknown''"
    and "now \<le> now'"
  shows "(\<exists>d. select_device (or_string (body.device_id data) ''unknown'')
                 (snd (post_status F ord data now s)) = Some d \<and> last_seen d = CURRENT_TIMESTAMP now)
       \<and> devices (snd (post_status F ord (data\<lparr>body.timestamp := t\<rparr>) now s))
           = devices (snd (post_status F ord data now s))
       \<and> (\<exists>d d'. select_device (or_string (body.device_id data) ''unknown'')
                 (snd (post_status F ord data now s)) = Some d
              \<and> select_device (or_string (body.device_id data) ''unknown'')
                 (snd (post_status F' ord' data' now' (snd (post_status F ord data now s))))
                  = Some d'
              \<and> last_seen d \<le> last_seen d')"
proof -
  let ?k = "or_string (body.device_id data) ''unknown''"
  let ?s1 = "snd (post_status F ord data now s)"
  let ?s2 = "snd (post_status F' ord' data' now' ?s1)"
  have mono: "CURRENT_TIMESTAMP now \<le> CURRENT_TIMESTAMP now'"
    using \<open>now \<le> now'\<close> by (simp add: CURRENT_TIMESTAMP_def zdiv_mono1)
  have first: "select_device ?k ?s1 =
     Some \<lparr>device.device_id = ?k, last_seen = CURRENT_TIMESTAMP now, total_uptime = 0,
            device.status = or_string (body.status data) ''online''\<rparr>"
    by (rule select_device_post_status [OF assms(1,3)])
  have "\<exists>d'. select_device ?k ?s2 = Some d' \<and> CURRENT_TIMESTAMP now \<le> last_seen d'"
  proof (cases "exited ?s1")
    case None
    then show ?thesis
      using select_device_post_status [where F=F' and ord=ord' and data=data' and now=now'
          and s="?s1", OF assms(2)] assms(4) mono
      by simp
  next
    case (Some msg)
    then have "devices ?s2 = devices ?s1"
      by (simp add: devices_post_status_exited)
    then have "select_device ?k ?s2 = select_device ?k ?s1"
      by (simp add: select_device_def)
    then show ?thesis
      using first by simp
  qed
  then show ?thesis
    using assms(1,3) first by (simp add: devices_post_status)
qed

theorem last_seen_ignores_client_time_witness:
  "upsert_applied no_faults InsertSelectUpsert \<and> exited empty_state = None
   \<and> or_string (body.device_id (esp32_body ''esp32'' ''online'')) ''unknown''
       = or_string (body.device_id (esp32_body ''esp32'' ''online'')) ''unknown''
   \<and> (100000::int) \<le> 130000
   \<and> map_option last_seen (select_device ''esp32''
        (snd (post_status no_faults InsertSelectUpsert (esp32_body ''esp32'' ''online'') 100000
                empty_state)))
       = Some 100
   \<and> devices (snd (post_status no_faults InsertSelectUpsert
                    ((esp32_body ''esp32'' ''online'')\<lparr>body.timestamp := Some 5\<rparr>)
                    100000 empty_state))
       = devices (snd (post_status no_faults InsertSelectUpsert (esp32_body ''esp32'' ''online'')
                         100000 empty_state))
   \<and> map_option last_seen (select_device ''esp32''
        (snd (post_status no_faults InsertSelectUpsert (esp32_body ''esp32'' ''online'') 130000
               (snd (post_status no_faults InsertSelectUpsert (esp32_body ''esp32'' ''online'')
                       100000 empty_state)))))
       = Some 130"
proof -
  have h: "upsert_applied no_faults InsertSelectUpsert" "exited empty_state = None"
    by (simp_all add: upsert_applied_def no_faults_def empty_state_def)
  have k: "or_string (body.device_id (esp32_body ''esp32'' ''online'')) ''unknown'' = ''esp32''"
    by (simp add: eval_defs)
  have c: "CURRENT_TIMESTAMP 100000 = 100"
    by (simp add: CURRENT_TIMESTAMP_def)
  have after: "map_option last_seen (select_device ''esp32''
        (snd (post_status no_faults InsertSelectUpsert (esp32_body ''esp32'' ''online'') 130000
               (snd (post_status no_faults InsertSelectUpsert (esp32_body ''esp32'' ''online'')
                       100000 empty_state)))))
       = Some 130"
    by (simp add: eval_defs)
  note w = last_seen_ignores_client_time [where F=no_faults and F'=no_faults
        and ord=InsertSelectUpsert and ord'=InsertSelectUpsert
        and data="esp32_body ''esp32'' ''online''" and data'="esp32_body ''esp32'' ''online''"
        and now=100000 and now'=130000 and s=empty_state and t="Some 5", OF h(1) h(1) h(2) refl]
  show ?thesis
    using h w after by (auto simp add: k c)
qed

subsection \<open>The history\<close>

lemma marker_time_ms:
  "offline_marker.server_timestamp (offline_marker_at i c n)
     = marker_ms (new_Date (server_timestamp c)) (new_Date (server_timestamp n))"
  by (simp add: offline_marker_at_def marker_ms_def gapMinutes_def)

lemma offline_marker_fields:
  "offline_marker.id (offline_marker_at i c n) = ''offline_'' @ toString i"
  "offline_marker.device_id (offline_marker_at i c n) = device_id c"
  "offline_marker.status (offline_marker_at i c n) = ''offline''"
  "is_offline_marker (offline_marker_at i c n)"
  by (simp_all add: offline_marker_at_def)

lemma marker_ms_125000_1000: "marker_ms 125000 1000 = 62999"
  by code_simp

lemma marker_ms_900000_660000: "marker_ms 900000 660000 = 780000"
  by code_simp

lemma gapMinutes_gt_1:
  "(gapMinutes c n > 1) = (server_timestamp c - server_timestamp n > 60)"
proof -
  have "(60000 < a * 1000 - b * 1000) = (60 < a - b)" for a b :: int
    by arith
  then show ?thesis
    by (simp add: gapMinutes_def minutes_gt_1 new_Date_def)
qed

lemma marker_time_near:
  assumes "datetime_range (server_timestamp c)" and "datetime_range (server_timestamp n)"
    and "server_timestamp n < server_timestamp c"
  shows "2 * offline_marker.server_timestamp (offline_marker_at i c n)
           = new_Date (server_timestamp c) + new_Date (server_timestamp n)
       \<or> 2 * offline_marker.server_timestamp (offline_marker_at i c n)
           = new_Date (server_timestamp c) + new_Date (server_timestamp n) - 2"
proof -
  have r: "0 \<le> server_timestamp n" "server_timestamp c \<le> 253402300799"
    using assms(1,2) by (simp_all add: datetime_range_def)
  have m: "new_Date x = 1000 * x" for x
    by (simp add: new_Date_def)
  show ?thesis
    using marker_ms_near [OF r(1) assms(3) r(2)]
    unfolding marker_time_ms m by auto
qed

lemma marker_time_exact:
  assumes "datetime_range (server_timestamp c)" and "datetime_range (server_timestamp n)"
    and "server_timestamp n < server_timestamp c"
    and "4 * (server_timestamp c - server_timestamp n) \<le> server_timestamp n"
  shows "2 * offline_marker.server_timestamp (offline_marker_at i c n)
           = new_Date (server_timestamp c) + new_Date (server_timestamp n)"
proof -
  have r: "0 \<le> server_timestamp n" "server_timestamp c \<le> 253402300799"
    using assms(1,2) by (simp_all add: datetime_range_def)
  have m: "new_Date x = 1000 * x" for x
    by (simp add: new_Date_def)
  show ?thesis
    using marker_ms_exact [OF r(1) assms(3) r(2) assms(4)]
    unfolding marker_time_ms m by simp
qed

lemma marker_time_between:
  assumes "datetime_range (server_timestamp c)" and "datetime_range (server_timestamp n)"
    and "server_timestamp n < server_timestamp c"
  shows "new_Date (server_timestamp n) \<le> offline_marker.server_timestamp (offline_marker_at i c n)"
    and "offline_marker.server_timestamp (offline_marker_at i c n) \<le> new_Date (server_timestamp c)"
  using marker_time_near [OF assms, of i] assms(3) by (auto simp add: new_Date_def)

lemma processedRows_offset:
  "processedRows i rows =
     concat (map (\<lambda>j. Row (rows ! j) #
       (if Suc j < length rows \<and> gapMinutes (rows ! j) (rows ! Suc j) > 1
        then [Marker (offline_marker_at (i + j) (rows ! j) (rows ! Suc j))] else []))
       [0..<length rows])"
proof (induction i rows rule: processedRows.induct)
  case (1 i)
  then show ?case by simp
next
  case (2 i r)
  then show ?case by simp
next
  case (3 i r n rows)
  have upt: "[0..<length (r # n # rows)] = 0 # map Suc [0..<length (n # rows)]"
    by (simp add: upt_conv_Cons map_Suc_upt del: upt_Suc)
  show ?case
    unfolding upt by (simp add: 3 comp_def del: upt_Suc cong: if_cong)
qed

lemma processedRows_spec_entries:
  "processedRows 0 rows = concat (map (spec_entries rows) [0..<length rows])"
  using processedRows_offset [of 0 rows] by (simp add: spec_entries_def [abs_def] cong: if_cong)

lemma entry_time_bound:
  "sorted_wrt (\<ge>) (map server_timestamp (r # rows))
     \<Longrightarrow> \<forall>x \<in> set (r # rows). datetime_range (server_timestamp x)
     \<Longrightarrow> \<forall>e \<in> set (processedRows i (r # rows)). entry_time e \<le> new_Date (server_timestamp r)"
proof (induction i "r # rows" arbitrary: r rows rule: processedRows.induct)
  case (2 i r)
  then show ?case by simp
next
  case (3 i r n rows)
  have le: "server_timestamp n \<le> server_timestamp r"
    using 3(2) by simp
  have tl: "sorted_wrt (\<ge>) (map server_timestamp (n # rows))"
    "\<forall>x \<in> set (n # rows). datetime_range (server_timestamp x)"
    using 3(2,3) by simp_all
  have rg: "datetime_range (server_timestamp r)" "datetime_range (server_timestamp n)"
    using 3(3) by simp_all
  have rest: "\<forall>e \<in> set (processedRows (Suc i) (n # rows)).
      entry_time e \<le> new_Date (server_timestamp r)"
    using 3(1) [OF tl] le by (fastforce simp add: new_Date_def)
  have mk: "offline_marker.server_timestamp (offline_marker_at i r n) \<le> new_Date (server_timestamp r)"
    if "gapMinutes r n > 1"
    using that marker_time_between(2) [OF rg, of i] by (simp add: gapMinutes_gt_1)
  show ?case
    using rest mk by auto
qed

lemma processedRows_descending:
  "sorted_wrt (\<ge>) (map server_timestamp rows)
     \<Longrightarrow> \<forall>x \<in> set rows. datetime_range (server_timestamp x)
     \<Longrightarrow> sorted_wrt (\<ge>) (map entry_time (processedRows i rows))"
proof (induction i rows rule: processedRows.induct)
  case (1 i)
  then show ?case by simp
next
  case (2 i r)
  then show ?case by simp
next
  case (3 i r n rows)
  have le: "server_timestamp n \<le> server_timestamp r"
    using 3(2) by simp
  have tl: "sorted_wrt (\<ge>) (map server_timestamp (n # rows))"
    "\<forall>x \<in> set (n # rows). datetime_range (server_timestamp x)"
    using 3(2,3) by simp_all
  have rg: "datetime_range (server_timestamp r)" "datetime_range (server_timestamp n)"
    using 3(3) by simp_all
  have bound: "e \<in> set (processedRows (Suc i) (n # rows))
      \<Longrightarrow> entry_time e \<le> new_Date (server_timestamp n)" for e
    using entry_time_bound [OF tl, of "Suc i"] by simp
  have b1: "e \<in> set (processedRows (Suc i) (n # rows))
      \<Longrightarrow> entry_time e \<le> new_Date (server_timestamp r)" for e
    using bound [of e] le by (simp add: new_Date_def)
  have b2: "e \<in> set (processedRows (Suc i) (n # rows))
      \<Longrightarrow> entry_time e \<le> offline_marker.server_timestamp (offline_marker_at i r n)"
    if "gapMinutes r n > 1" for e
    using bound [of e] that marker_time_between(1) [OF rg, of i] by (simp add: gapMinutes_gt_1)
  have mk: "offline_marker.server_timestamp (offline_marker_at i r n) \<le> new_Date (server_timestamp r)"
    if "gapMinutes r n > 1"
    using that marker_time_between(2) [OF rg, of i] by (simp add: gapMinutes_gt_1)
  show ?case
    using 3(1) [OF tl] b1 b2 mk
    by (auto simp add: sorted_wrt_append)
qed

lemma chronological:
  "sorted_wrt (\<ge>) (map server_timestamp rows)
     \<Longrightarrow> \<forall>x \<in> set rows. datetime_range (server_timestamp x)
     \<Longrightarrow> sorted (map entry_time (rev (processedRows i rows)))"
  using processedRows_descending [of rows i]
  by (simp add: rev_map [symmetric] sorted_wrt_rev)

lemma descending_iff: "sorted_wrt (\<ge>) (map f xs) = sorted (map (\<lambda>x. - f x) xs)" for f :: "'a \<Rightarrow> int"
  by (induction xs) auto

lemma order_by_desc_descending: "sorted_wrt (\<ge>) (map key (order_by_desc key rows))"
  by (simp add: descending_iff order_by_desc_def)

lemma sql_limit_descending:
  "sorted_wrt (\<ge>) (map key rows) \<Longrightarrow> sorted_wrt (\<ge>) (map key (sql_limit n rows))"
  by (simp add: sql_limit_def descending_iff take_map [symmetric] sorted_wrt_take)

lemma select_history_descending:
  "sorted_wrt (\<ge>) (map server_timestamp (select_history n s))"
  by (simp add: select_history_def sql_limit_descending order_by_desc_descending)

lemma set_select_history: "set (select_history n s) \<subseteq> set (status_updates s)"
  using set_take_subset [of "nat n" "sort_key (\<lambda>r. - server_timestamp r) (status_updates s)"]
  by (simp add: select_history_def sql_limit_def order_by_desc_def)

lemma marker_times_device_blind:
  "map server_timestamp rows = map server_timestamp rows'
     \<Longrightarrow> map marker_time (processedRows i rows) = map marker_time (processedRows i rows')"
proof (induction i rows arbitrary: rows' rule: processedRows.induct)
  case (1 i)
  then show ?case by simp
next
  case (2 i r)
  then show ?case by auto
next
  case (3 i r n rows)
  then obtain r' n' rest where rows': "rows' = r' # n' # rest"
    and ts: "server_timestamp r' = server_timestamp r" "server_timestamp n' = server_timestamp n"
        "map server_timestamp rest = map server_timestamp rows"
    by (auto simp add: Cons_eq_map_conv)
  have "map marker_time (processedRows (Suc i) (n # rows))
      = map marker_time (processedRows (Suc i) (n' # rest))"
    using 3(1) [of "n' # rest"] ts by simp
  then show ?case
    using ts by (simp add: rows' gapMinutes_gt_1 marker_time_ms)
qed

lemma not_is_marker: "(\<lambda>e. \<not> is_marker e) = is_row"
proof
  fix e show "(\<not> is_marker e) = is_row e" by (cases e) simp_all
qed

lemma length_stored_rows:
  "length (filter is_row (processedRows i rows)) = length rows"
  by (induction i rows rule: processedRows.induct) auto

lemma length_markers:
  "Suc (length (filter is_marker (processedRows i rows))) \<le> length rows \<or> rows = []"
  by (induction i rows rule: processedRows.induct) auto

lemma length_select_history:
  "0 \<le> n \<Longrightarrow> int (length (select_history n s)) \<le> n"
  by (simp add: select_history_def sql_limit_def)

subsection \<open>Size, order and markers of the history\<close>

lemmas history_eval = eval_defs three_reports_def early_reports_def get_history_def
  select_history_def history_limit_def or_int_def response_entries_def gapMinutes_gt_1
  offline_marker_fields marker_time_ms marker_ms_125000_1000 marker_ms_900000_660000

text \<open>
  C3, as stated. For two stored reports at 1 s and 125 s of server time the marker is put at
  62999 ms, the millisecond before the midpoint 63000 ms of the two rows: the source
  computes the gap in minutes and half the gap in doubles, and
  \<^verbatim>\<open>125000 - 124000 / 1000 / 60 * 60 * 1000 / 2\<close> is \<^verbatim>\<open>62999.99999999999\<close>, of which
  \<^verbatim>\<open>new Date\<close> drops the fraction.
\<close>

theorem gap_synthesizer_counterexample:
  "map server_timestamp (select_history 100 early_reports) = [125, 1]
   \<and> map is_marker (response_entries (get_history no_faults None early_reports))
       = [False, True, False]
   \<and> map entry_time (response_entries (get_history no_faults None early_reports))
       = [1000, 62999, 125000]
   \<and> 2 * 62999 \<noteq> new_Date 125 + new_Date 1"
  by (simp add: history_eval)

text \<open>
  C3, amended. For rows in descending order of \<^verbatim>\<open>server_timestamp\<close>, the loop of
  \<^verbatim>\<open>GET /api/history\<close> emits each row followed by one marker exactly when the row has a
  successor and the gap to it exceeds one minute, which is the case exactly when the two
  timestamps are more than 60 seconds apart. A marker has status \<open>offline\<close>,
  \<^verbatim>\<open>is_offline_marker\<close> true, the device id of the more recent row and an id that no stored
  row has. For timestamps from 1970 to the end of the year 9999, the time of the marker is
  the midpoint of the two rows or the millisecond before it, and it is the midpoint when
  the gap is at most a quarter of the older timestamp. The response is the reversed list,
  and for such timestamps it is in chronological order.
\<close>

theorem gap_synthesizer:
  assumes "sorted_wrt (\<ge>) (map server_timestamp rows)"
    and "\<forall>r \<in> set rows. datetime_range (server_timestamp r)"
  shows "processedRows 0 rows = concat (map (spec_entries rows) [0..<length rows])
    \<and> (gapMinutes c n > 1 \<longleftrightarrow> server_timestamp c - server_timestamp n > 60)
    \<and> offline_marker.status (offline_marker_at i c n) = ''offline''
    \<and> is_offline_marker (offline_marker_at i c n)
    \<and> offline_marker.device_id (offline_marker_at i c n) = device_id c
    \<and> (\<forall>r. entry_id (Marker (offline_marker_at i c n)) \<noteq> entry_id (Row r))
    \<and> (datetime_range (server_timestamp c) \<and> datetime_range (server_timestamp n)
         \<and> server_timestamp n < server_timestamp c \<longrightarrow>
        (2 * offline_marker.server_timestamp (offline_marker_at i c n)
           = new_Date (server_timestamp c) + new_Date (server_timestamp n)
         \<or> 2 * offline_marker.server_timestamp (offline_marker_at i c n)
           = new_Date (server_timestamp c) + new_Date (server_timestamp n) - 2)
        \<and> (4 * (server_timestamp c - server_timestamp n) \<le> server_timestamp n \<longrightarrow>
            2 * offline_marker.server_timestamp (offline_marker_at i c n)
              = new_Date (server_timestamp c) + new_Date (server_timestamp n)))
    \<and> sorted (map entry_time (rev (processedRows 0 rows)))
    \<and> (F HistorySelect = None
         \<and> (\<forall>r \<in> set (status_updates s). datetime_range (server_timestamp r)) \<longrightarrow>
          get_history F parsed s
            = Response 200 (History (rev (processedRows 0 (select_history (history_limit parsed) s))))
          \<and> sorted (map entry_time (response_entries (get_history F parsed s))))"
proof -
  have fields: "offline_marker.status (offline_marker_at i c n) = ''offline''
      \<and> is_offline_marker (offline_marker_at i c n)
      \<and> offline_marker.device_id (offline_marker_at i c n) = device_id c
      \<and> (\<forall>r. entry_id (Marker (offline_marker_at i c n)) \<noteq> entry_id (Row r))"
    by (simp add: offline_marker_at_def)
  have mid: "datetime_range (server_timestamp c) \<and> datetime_range (server_timestamp n)
         \<and> server_timestamp n < server_timestamp c \<longrightarrow>
        (2 * offline_marker.server_timestamp (offline_marker_at i c n)
           = new_Date (server_timestamp c) + new_Date (server_timestamp n)
         \<or> 2 * offline_marker.server_timestamp (offline_marker_at i c n)
           = new_Date (server_timestamp c) + new_Date (server_timestamp n) - 2)
        \<and> (4 * (server_timestamp c - server_timestamp n) \<le> server_timestamp n \<longrightarrow>
            2 * offline_marker.server_timestamp (offline_marker_at i c n)
              = new_Date (server_timestamp c) + new_Date (server_timestamp n))"
    using marker_time_near [of c n i] marker_time_exact [of c n i] by blast
  have resp: "sorted (map entry_time (response_entries (get_history F parsed s)))"
    if "F HistorySelect = None"
      and "\<forall>r \<in> set (status_updates s). datetime_range (server_timestamp r)"
  proof -
    have "\<forall>r \<in> set (select_history (history_limit parsed) s). datetime_range (server_timestamp r)"
      using that(2) set_select_history [of "history_limit parsed" s] by blast
    then show ?thesis
      using that(1) chronological [OF select_history_descending, of "history_limit parsed" s 0]
      by (simp add: get_history_def db_query_def response_entries_def)
  qed
  have hist: "get_history F parsed s
            = Response 200 (History (rev (processedRows 0 (select_history (history_limit parsed) s))))"
    if "F HistorySelect = None"
    using that by (simp add: get_history_def db_query_def)
  have gap: "gapMinutes c n > 1 \<longleftrightarrow> server_timestamp c - server_timestamp n > 60"
    by (rule gapMinutes_gt_1)
  have order: "sorted (map entry_time (rev (processedRows 0 rows)))"
    by (rule chronological [OF assms])
  show ?thesis
    using processedRows_spec_entries [of rows] gap fields mid order resp hist by blast
qed

theorem gap_synthesizer_witness:
  "sorted_wrt (\<ge>) (map server_timestamp (select_history 100 three_reports))
   \<and> map server_timestamp (select_history 100 three_reports) = [900, 660, 600]
   \<and> list_all (\<lambda>r. datetime_range (server_timestamp r)) (select_history 100 three_reports)
   \<and> map entry_id (rev (processedRows 0 (select_history 100 three_reports)))
       = [IdNumber 1, IdNumber 2, IdString ''offline_0'', IdNumber 3]
   \<and> map entry_time (rev (processedRows 0 (select_history 100 three_reports)))
       = [600000, 660000, 780000, 900000]
   \<and> sorted (map entry_time (rev (processedRows 0 (select_history 100 three_reports))))"
proof -
  have h: "sorted_wrt (\<ge>) (map server_timestamp (select_history 100 three_reports))"
    "\<forall>r \<in> set (select_history 100 three_reports). datetime_range (server_timestamp r)"
    by (simp_all add: history_eval datetime_range_def)
  have e: "map server_timestamp (select_history 100 three_reports) = [900, 660, 600]"
    "list_all (\<lambda>r. datetime_range (server_timestamp r)) (select_history 100 three_reports)"
    "map entry_id (rev (processedRows 0 (select_history 100 three_reports)))
       = [IdNumber 1, IdNumber 2, IdString ''offline_0'', IdNumber 3]"
    "map entry_time (rev (processedRows 0 (select_history 100 three_reports)))
       = [600000, 660000, 780000, 900000]"
    by (simp_all add: history_eval datetime_range_def)
  have "sorted (map entry_time (rev (processedRows 0 (select_history 100 three_reports))))"
    using gap_synthesizer [OF h] by blast
  then show ?thesis
    using h(1) e by simp
qed

text \<open>
  C10. Where the loop of \<^verbatim>\<open>GET /api/history\<close> places markers, and at which times, depends
  on the \<^verbatim>\<open>server_timestamp\<close>s of the rows only: two lists of rows with the same
  timestamps get markers at the same positions, whatever their device ids. A marker
  between two rows carries the device id of the first, more recent one, also when the
  second row belongs to another device, and such a marker does occur.
\<close>

theorem gap_synthesis_device_blind:
  assumes "map server_timestamp rows = map server_timestamp rows'"
  shows "map marker_time (processedRows i rows) = map marker_time (processedRows i rows')
    \<and> (gapMinutes r n > 1 \<longrightarrow>
          processedRows i (r # n # rest)
            = Row r # Marker (offline_marker_at i r n) # processedRows (Suc i) (n # rest)
          \<and> offline_marker.device_id (offline_marker_at i r n) = device_id r)
    \<and> (\<exists>s m r n. response_entries (get_history no_faults None s) = [Row n, Marker m, Row r]
          \<and> device_id r \<noteq> device_id n
          \<and> offline_marker.device_id m = device_id r
          \<and> server_timestamp n < server_timestamp r)"
proof -
  let ?s = "snd (post_status no_faults InsertSelectUpsert (esp32_body ''esp32-b'' ''online'') 900000
         (snd (post_status no_faults InsertSelectUpsert (esp32_body ''esp32-a'' ''online'') 660000
                 empty_state)))"
  let ?n = "\<lparr>id = 1, device_id = ''esp32-a'', status = ''online'', uptime_seconds = Num 0,
             ip_address = [], rssi = Num 0, free_heap = Num 0, is_boot = 0,
             timestamp = Num 660000, server_timestamp = 660\<rparr>"
  let ?r = "\<lparr>id = 2, device_id = ''esp32-b'', status = ''online'', uptime_seconds = Num 0,
             ip_address = [], rssi = Num 0, free_heap = Num 0, is_boot = 0,
             timestamp = Num 900000, server_timestamp = 900\<rparr>"
  have "response_entries (get_history no_faults None ?s)
      = [Row ?n, Marker (offline_marker_at 0 ?r ?n), Row ?r]"
    by (simp add: history_eval)
  moreover have "device_id ?r \<noteq> device_id ?n"
    "offline_marker.device_id (offline_marker_at 0 ?r ?n) = device_id ?r"
    "server_timestamp ?n < server_timestamp ?r"
    by (simp_all add: offline_marker_fields)
  ultimately have ex: "\<exists>s m r n. response_entries (get_history no_faults None s) = [Row n, Marker m, Row r]
          \<and> device_id r \<noteq> device_id n
          \<and> offline_marker.device_id m = device_id r
          \<and> server_timestamp n < server_timestamp r"
    by blast
  show ?thesis
    using marker_times_device_blind [OF assms, of i] ex
    by (simp add: offline_marker_fields)
qed

theorem gap_synthesis_device_blind_witness:
  "map server_timestamp (select_history 100 three_reports)
     = map server_timestamp (map (\<lambda>r. r\<lparr>device_id := ''esp32-c''\<rparr>) (select_history 100 three_reports))
   \<and> map device_id (select_history 100 three_reports) = [''esp32-b'', ''esp32-a'', ''esp32-a'']
   \<and> map marker_time (processedRows 0 (select_history 100 three_reports))
       = [None, Some 780000, None, None]
   \<and> map marker_time (processedRows 0
         (map (\<lambda>r. r\<lparr>device_id := ''esp32-c''\<rparr>) (select_history 100 three_reports)))
       = [None, Some 780000, None, None]"
proof -
  have h: "map server_timestamp (select_history 100 three_reports)
     = map server_timestamp (map (\<lambda>r. r\<lparr>device_id := ''esp32-c''\<rparr>) (select_history 100 three_reports))"
    by (simp add: comp_def)
  have e: "map device_id (select_history 100 three_reports) = [''esp32-b'', ''esp32-a'', ''esp32-a'']"
    "map marker_time (processedRows 0 (select_history 100 three_reports))
       = [None, Some 780000, None, None]"
    by (simp_all add: history_eval)
  have "map marker_time (processedRows 0 (select_history 100 three_reports))
      = map marker_time (processedRows 0
         (map (\<lambda>r. r\<lparr>device_id := ''esp32-c''\<rparr>) (select_history 100 three_reports)))"
    by (rule gap_synthesis_device_blind [OF h, of 0, THEN conjunct1])
  then show ?thesis
    using h e by simp
qed

text \<open>
  C5, as stated: the response to \<^verbatim>\<open>GET /api/history?limit=2\<close> on three stored reports has
  three entries, the marker of the gap being added after the \<^verbatim>\<open>LIMIT\<close>; and with
  \<^verbatim>\<open>limit=-1\<close> all three stored reports are returned.
\<close>

theorem history_size_counterexample:
  "history_limit (Some 2) = 2
   \<and> map is_marker (response_entries (get_history no_faults (Some 2) three_reports))
       = [False, True, False]
   \<and> \<not> int (length (response_entries (get_history no_faults (Some 2) three_reports))) \<le> 2
   \<and> length (filter is_row
        (response_entries (get_history no_faults (Some (- 1)) three_reports))) = 3"
  by (simp add: history_eval)

text \<open>
  C5, amended. Let \<open>N\<close> be the parsed limit, or 100 when the parameter is absent, does not
  parse or parses to 0. When \<open>N\<close> is positive the response holds at most \<open>N\<close> stored
  reports and at most \<open>N - 1\<close> markers, so at most \<open>2 N - 1\<close> entries.
\<close>

theorem history_size_bound:
  assumes "0 < history_limit parsed"
  shows "int (length (filter is_row (response_entries (get_history F parsed s))))
           \<le> history_limit parsed
    \<and> int (length (filter is_marker (response_entries (get_history F parsed s))))
           \<le> history_limit parsed - 1
    \<and> int (length (response_entries (get_history F parsed s))) \<le> 2 * history_limit parsed - 1
    \<and> (parsed = None \<or> parsed = Some 0 \<longrightarrow> history_limit parsed = 100)
    \<and> (\<forall>n. parsed = Some n \<and> n \<noteq> 0 \<longrightarrow> history_limit parsed = n)"
proof (cases "F HistorySelect")
  case None
  let ?rows = "select_history (history_limit parsed) s"
  let ?es = "rev (processedRows 0 ?rows)"
  have es: "response_entries (get_history F parsed s) = ?es"
    using None by (simp add: get_history_def db_query_def response_entries_def)
  have rows: "int (length ?rows) \<le> history_limit parsed"
    using assms by (simp add: length_select_history)
  have stored: "length (filter is_row ?es) = length ?rows"
    by (simp add: rev_filter [symmetric] length_stored_rows)
  have markers: "int (length (filter is_marker ?es)) \<le> history_limit parsed - 1"
    using length_markers [of 0 ?rows] rows assms by (auto simp add: rev_filter [symmetric])
  have "length ?es = length (filter is_row ?es) + length (filter is_marker ?es)"
    using sum_length_filter_compl [of is_marker ?es] by (simp add: not_is_marker)
  then have total: "int (length ?es) \<le> 2 * history_limit parsed - 1"
    using stored rows markers by simp
  show ?thesis
    unfolding es using stored rows markers total
    by (auto simp add: history_limit_def or_int_def split: option.splits)
next
  case (Some msg)
  then have "response_entries (get_history F parsed s) = []"
    by (simp add: get_history_def db_query_def response_entries_def)
  then show ?thesis
    using assms by (auto simp add: history_limit_def or_int_def split: option.splits)
qed

theorem history_size_bound_witness:
  "0 < history_limit (Some 2)
   \<and> length (filter is_row
        (response_entries (get_history no_faults (Some 2) three_reports))) = 2
   \<and> length (filter is_marker
        (response_entries (get_history no_faults (Some 2) three_reports))) = 1
   \<and> int (length (response_entries (get_history no_faults (Some 2) three_reports)))
       \<le> 2 * history_limit (Some 2) - 1"
proof -
  have h: "0 < history_limit (Some 2)"
    by (simp add: history_limit_def or_int_def)
  have e: "length (filter is_row
        (response_entries (get_history no_faults (Some 2) three_reports))) = 2"
    "length (filter is_marker
        (response_entries (get_history no_faults (Some 2) three_reports))) = 1"
    by (simp_all add: history_eval)
  show ?thesis
    using h e history_size_bound [OF h, of no_faults three_reports] by simp
qed

subsection \<open>The sweep\<close>

lemma sweep_row_id [simp]: "(sweep_row now m d)\<lparr>id := n\<rparr> = sweep_row now n d"
  by (simp add: sweep_row_def)

lemma sweep_due_iff:
  "sweep_due now d \<longleftrightarrow> \<not> isOnline now d \<and> device.status d = ''online''"
  by (simp add: sweep_due_def isOnline_def not_less)

lemma sweep_fresh:
  "isOnline now d \<Longrightarrow> sweep_log now d s = s"
  "isOnline now d \<Longrightarrow> sweep_device F now d s = s"
  by (simp_all add: sweep_log_def sweep_device_def sweep_due_iff)

lemma sweep_log_fields:
  "status_updates (sweep_log now d s) = status_updates s"
  "sqlite_sequence (sweep_log now d s) = sqlite_sequence s"
  "devices (sweep_log now d s) = devices s"
  "exited (sweep_log now d s) = exited s"
  "console (sweep_log now d s)
     = console s @ (if sweep_due now d
         then [DetectedOffline (device.device_id d) (Math_round (minutesSinceLastSeen now d))]
         else [])"
  by (simp_all add: sweep_log_def)

lemma fold_sweep_log:
  "status_updates (fold (sweep_log now) ds s) = status_updates s"
  "sqlite_sequence (fold (sweep_log now) ds s) = sqlite_sequence s"
  "devices (fold (sweep_log now) ds s) = devices s"
  "exited (fold (sweep_log now) ds s) = exited s"
  "console (fold (sweep_log now) ds s)
     = console s @ map (\<lambda>d. DetectedOffline (device.device_id d)
                          (Math_round (minutesSinceLastSeen now d))) (filter (sweep_due now) ds)"
  by (induction ds arbitrary: s) (simp_all add: sweep_log_fields)

lemma sweep_device_no_faults:
  "exited s = None \<Longrightarrow>
   sweep_device no_faults now d s =
     (if sweep_due now d
      then insert_status_update (sweep_row now 0 d)
             (update_device_offline (device.device_id d) s)
      else s)"
  by (simp add: sweep_device_def no_faults_def db_run_running Let_def)

lemma sweep_device_fields:
  assumes "exited s = None"
  shows "status_updates (sweep_device no_faults now d s)
     = status_updates s @ (if sweep_due now d then [sweep_row now (Suc (sqlite_sequence s)) d] else [])"
    and "sqlite_sequence (sweep_device no_faults now d s)
     = (if sweep_due now d then Suc (sqlite_sequence s) else sqlite_sequence s)"
    and "console (sweep_device no_faults now d s) = console s"
    and "exited (sweep_device no_faults now d s) = None"
    and "devices (sweep_device no_faults now d s)
     = (if sweep_due now d
        then map (\<lambda>x. if device.device_id x = device.device_id d
                       then x\<lparr>device.status := ''offline''\<rparr> else x) (devices s)
        else devices s)"
  using assms by (simp_all add: sweep_device_no_faults)

lemma fold_sweep_exited:
  "exited s = None \<Longrightarrow> exited (fold (sweep_device no_faults now) ds s) = None"
  by (induction ds arbitrary: s) (simp_all add: sweep_device_fields)

lemma fold_sweep_status_updates:
  "exited s = None \<Longrightarrow>
   status_updates (fold (sweep_device no_faults now) ds s)
     = status_updates s @ sweep_rows now (sqlite_sequence s) ds"
  by (induction ds arbitrary: s) (simp_all add: sweep_device_fields)

lemma fold_sweep_console:
  "exited s = None \<Longrightarrow> console (fold (sweep_device no_faults now) ds s) = console s"
  by (induction ds arbitrary: s) (simp_all add: sweep_device_fields)

lemma fold_sweep_devices:
  "exited s = None \<Longrightarrow>
   devices (fold (sweep_device no_faults now) ds s)
     = map (\<lambda>d. if device.device_id d \<in> device.device_id ` {x \<in> set ds. sweep_due now x}
                 then d\<lparr>device.status := ''offline''\<rparr> else d) (devices s)"
proof (induction ds arbitrary: s)
  case Nil
  then show ?case by simp
next
  case (Cons d ds)
  have "exited (sweep_device no_faults now d s) = None"
    using Cons.prems by (rule sweep_device_fields)
  then show ?case
    using Cons.prems by (simp add: Cons.IH sweep_device_fields) (auto simp add: image_iff)
qed

lemma sweep_no_faults:
  "sweep no_faults now s
     = fold (sweep_device no_faults now) (devices s) (fold (sweep_log now) (devices s) s)"
  by (simp add: sweep_def no_faults_def db_query_def)

lemma sweep_fields:
  assumes "exited s = None"
  shows "status_updates (sweep no_faults now s)
     = status_updates s @ sweep_rows now (sqlite_sequence s) (devices s)"
    and "console (sweep no_faults now s)
     = console s @ map (\<lambda>d. DetectedOffline (device.device_id d)
                          (Math_round (minutesSinceLastSeen now d)))
                     (filter (sweep_due now) (devices s))"
    and "devices (sweep no_faults now s)
     = map (\<lambda>d. if device.device_id d \<in> device.device_id ` {x \<in> set (devices s). sweep_due now x}
                 then d\<lparr>device.status := ''offline''\<rparr> else d) (devices s)"
    and "exited (sweep no_faults now s) = None"
  using assms
  by (simp_all add: sweep_no_faults fold_sweep_status_updates fold_sweep_console
      fold_sweep_devices fold_sweep_exited fold_sweep_log)

lemma sweep_rows_none:
  "\<forall>d \<in> set ds. device.device_id d = k \<longrightarrow> \<not> sweep_due now d
     \<Longrightarrow> filter (\<lambda>r. device_id r = k) (sweep_rows now n ds) = []"
  by (induction ds arbitrary: n) (auto simp add: sweep_row_def)

lemma sweep_rows_one:
  "distinct (map device.device_id ds) \<Longrightarrow> d \<in> set ds \<Longrightarrow> sweep_due now d
     \<Longrightarrow> \<exists>m. filter (\<lambda>r. device_id r = device.device_id d) (sweep_rows now n ds)
            = [sweep_row now m d]"
proof (induction ds arbitrary: n)
  case Nil
  then show ?case by simp
next
  case (Cons x ds)
  show ?case
  proof (cases "x = d")
    case True
    have "\<forall>y \<in> set ds. device.device_id y = device.device_id d \<longrightarrow> \<not> sweep_due now y"
      using Cons.prems(1) True by (auto simp add: image_iff)
    then have "filter (\<lambda>r. device_id r = device.device_id d) (sweep_rows now m ds) = []" for m
      by (rule sweep_rows_none)
    then show ?thesis
      using True Cons.prems(3) by (simp add: sweep_row_def)
  next
    case False
    then have d: "d \<in> set ds" and neq: "device.device_id x \<noteq> device.device_id d"
      using Cons.prems(1,2) by (auto simp add: image_iff)
    have dist: "distinct (map device.device_id ds)"
      using Cons.prems(1) by simp
    show ?thesis
      using Cons.IH [OF dist d Cons.prems(3)] neq by (simp add: sweep_row_def)
  qed
qed

lemma sweep_events_none:
  "\<forall>d \<in> set ds. device.device_id d = k \<longrightarrow> \<not> sweep_due now d
     \<Longrightarrow> filter (offline_event_of k)
           (map (\<lambda>d. DetectedOffline (device.device_id d) (Math_round (minutesSinceLastSeen now d)))
              (filter (sweep_due now) ds)) = []"
  by (induction ds) auto

lemma sweep_events_one:
  "distinct (map device.device_id ds) \<Longrightarrow> d \<in> set ds \<Longrightarrow> sweep_due now d
     \<Longrightarrow> filter (offline_event_of (device.device_id d))
           (map (\<lambda>d. DetectedOffline (device.device_id d) (Math_round (minutesSinceLastSeen now d)))
              (filter (sweep_due now) ds))
         = [DetectedOffline (device.device_id d) (Math_round (minutesSinceLastSeen now d))]"
proof (induction ds)
  case Nil
  then show ?case by simp
next
  case (Cons x ds)
  show ?case
  proof (cases "x = d")
    case True
    have "\<forall>y \<in> set ds. device.device_id y = device.device_id d \<longrightarrow> \<not> sweep_due now y"
      using Cons.prems(1) True by (auto simp add: image_iff)
    then show ?thesis
      using True Cons.prems(3) sweep_events_none [of ds "device.device_id d" now] by simp
  next
    case False
    then have d: "d \<in> set ds" and neq: "device.device_id x \<noteq> device.device_id d"
      using Cons.prems(1,2) by (auto simp add: image_iff)
    have dist: "distinct (map device.device_id ds)"
      using Cons.prems(1) by simp
    show ?thesis
      using Cons.IH [OF dist d Cons.prems(3)] neq by simp
  qed
qed

lemma find_distinct_key:
  "distinct (map f xs) \<Longrightarrow> x \<in> set xs \<Longrightarrow> find (\<lambda>d. f d = f x) xs = Some x"
  by (induction xs) (auto simp add: image_iff)

lemma find_map_same_key:
  "(\<And>d. f (g d) = f d) \<Longrightarrow> find (\<lambda>d. f d = k) (map g xs) = map_option g (find (\<lambda>d. f d = k) xs)"
  by (induction xs) auto

text \<open>A tick does not change the device ids of the table.\<close>

lemma device_ids_sweep:
  "exited s = None \<Longrightarrow>
   map device.device_id (devices (sweep no_faults now s)) = map device.device_id (devices s)"
  by (simp add: sweep_fields comp_def)

lemma sweep_not_due:
  assumes "\<forall>d \<in> set (devices s). device.device_id d = k \<longrightarrow> \<not> sweep_due now d"
    and "exited s = None"
  shows "reports_of k (sweep no_faults now s) = reports_of k s"
    and "offline_events k (sweep no_faults now s) = offline_events k s"
  using assms
  by (simp_all add: reports_of_def offline_events_def sweep_fields sweep_rows_none
      sweep_events_none)

lemma sweep_due_once:
  assumes "distinct (map device.device_id (devices s))" and "dev \<in> set (devices s)"
    and "sweep_due now dev" and "exited s = None"
  shows "\<exists>m. reports_of (device.device_id dev) (sweep no_faults now s)
              = reports_of (device.device_id dev) s @ [sweep_row now m dev]"
    and "offline_events (device.device_id dev) (sweep no_faults now s)
           = offline_events (device.device_id dev) s
             @ [DetectedOffline (device.device_id dev) (Math_round (minutesSinceLastSeen now dev))]"
  using sweep_rows_one [OF assms(1-3), of "sqlite_sequence s"] sweep_events_one [OF assms(1-3)]
    assms(4)
  by (simp_all add: reports_of_def offline_events_def sweep_fields)

lemma sweep_status:
  assumes "distinct (map device.device_id (devices s))" and "dev \<in> set (devices s)"
    and "exited s = None"
  shows "select_device_status (device.device_id dev) (sweep no_faults now s)
           = Some (if sweep_due now dev then ''offline'' else device.status dev)"
proof -
  have "x = dev" if "x \<in> set (devices s)" and "device.device_id x = device.device_id dev" for x
    using that assms(1,2) by (auto simp add: distinct_map inj_on_def)
  then have "device.device_id dev \<in> device.device_id ` {x \<in> set (devices s). sweep_due now x}
        \<longleftrightarrow> sweep_due now dev"
    using assms(2) by (auto simp add: image_iff)
  then show ?thesis
    using find_distinct_key [OF assms(1,2)] assms(3)
    by (simp add: select_device_status_def sweep_fields find_map_same_key)
qed

lemma sweep_marks_row:
  assumes "dev \<in> set (devices s)" and "sweep_due now dev" and "exited s = None"
  shows "\<forall>d \<in> set (devices (sweep no_faults now s)).
           device.device_id d = device.device_id dev \<longrightarrow> \<not> sweep_due now' d"
  using assms
  by (auto simp add: sweep_fields sweep_due_def image_iff)

lemmas sweep_eval = eval_defs sweep_def sweep_device_def sweep_log_def sweep_due_def
  sweep_row_def reports_of_def offline_events_def Let_def Math_round_def minutes_90000

lemma get_status_answer:
  assumes "select_latest_device s = Some dev"
    and "F StatusSelectDevice = None" and "F StatusSelectLatest = None"
    and "F StatusUpdate = None \<or> ord = SelectThenUpdate"
    and "exited s = None"
  shows "response_status (fst (get_status F ord now s))
           = Some (if isOnline now dev then ''online'' else ''offline'')"
proof (cases "F StatusUpdate")
  case None
  then show ?thesis
    using assms(1-3,5)
    by (simp add: get_status_def db_query_def Let_def response_status_def db_run_running)
next
  case (Some msg)
  then have "ord = SelectThenUpdate"
    using assms(4) by simp
  then show ?thesis
    using assms(1-3)
    by (simp add: get_status_def db_query_def Let_def response_status_def)
qed

subsection \<open>Liveness and the offline transition\<close>

text \<open>
  C2. The status that \<^verbatim>\<open>GET /api/status\<close> reports for the device it selected is
  \<open>online\<close> exactly when the time since \<open>last_seen\<close>, in minutes, is below 1, and
  \<open>offline\<close> otherwise; that is the case exactly when fewer than 60000 milliseconds have
  passed, so at the threshold itself the device is offline. The sweep acts on a device
  exactly when the read path does not evaluate it as online and it is stored as \<open>online\<close>:
  it leaves a device alone that the read path evaluates as online, and after a tick every
  device is stored as \<open>offline\<close> that was stored as \<open>online\<close> and is not evaluated as
  online, and every other device is stored as it was.
\<close>

theorem liveness_evaluation:
  assumes "select_latest_device s = Some dev"
    and "F StatusSelectDevice = None" and "F StatusSelectLatest = None"
    and "F StatusUpdate = None \<or> ord = SelectThenUpdate"
    and "exited s = None"
    and "distinct (map device.device_id (devices s))"
  shows "(response_status (fst (get_status F ord now s)) = Some ''online''
            \<longleftrightarrow> minutes (now - new_Date (last_seen dev)) < 1)
       \<and> (response_status (fst (get_status F ord now s)) = Some ''offline''
            \<longleftrightarrow> \<not> minutes (now - new_Date (last_seen dev)) < 1)
       \<and> (minutes (now - new_Date (last_seen dev)) < 1
            \<longleftrightarrow> now - new_Date (last_seen dev) < 60000)
       \<and> response_status (fst (get_status F ord (new_Date (last_seen dev) + 60000) s))
            = Some ''offline''
       \<and> (\<forall>d. sweep_due now d \<longleftrightarrow> \<not> isOnline now d \<and> device.status d = ''online'')
       \<and> (\<forall>d. isOnline now d \<longrightarrow> sweep_log now d s = s \<and> sweep_device F now d s = s)
       \<and> (\<forall>d \<in> set (devices s).
             select_device_status (device.device_id d) (sweep no_faults now s)
               = Some (if \<not> isOnline now d \<and> device.status d = ''online''
                       then ''offline'' else device.status d))"
proof -
  have answer: "response_status (fst (get_status F ord t s))
      = Some (if minutes (t - new_Date (last_seen dev)) < 1 then ''online'' else ''offline'')" for t
    using get_status_answer [OF assms(1-5), of t]
    by (simp add: isOnline_def minutesSinceLastSeen_def)
  have swept: "select_device_status (device.device_id d) (sweep no_faults now s)
               = Some (if \<not> isOnline now d \<and> device.status d = ''online''
                       then ''offline'' else device.status d)"
    if "d \<in> set (devices s)" for d
    using sweep_status [OF assms(6) that assms(5), of now] by (simp add: sweep_due_iff)
  show ?thesis
    using swept by (simp add: answer minutes_lt_1 sweep_due_iff sweep_fresh)
qed

theorem liveness_evaluation_witness:
  "select_latest_device one_device = Some esp32_row
   \<and> no_faults StatusSelectDevice = None \<and> no_faults StatusSelectLatest = None
   \<and> no_faults StatusUpdate = None
   \<and> exited one_device = None
   \<and> distinct (map device.device_id (devices one_device))
   \<and> esp32_row \<in> set (devices one_device)
   \<and> device.status esp32_row = ''online''
   \<and> response_status (fst (get_status no_faults UpdateThenSelect 159999 one_device)) = Some ''online''
   \<and> response_status (fst (get_status no_faults UpdateThenSelect 160000 one_device)) = Some ''offline''
   \<and> isOnline 159999 esp32_row \<and> \<not> sweep_due 159999 esp32_row
   \<and> \<not> isOnline 160000 esp32_row \<and> sweep_due 160000 esp32_row
   \<and> sweep_device no_faults 159999 esp32_row one_device = one_device
   \<and> select_device_status ''esp32'' (sweep no_faults 159999 one_device) = Some ''online''
   \<and> select_device_status ''esp32'' (sweep no_faults 160000 one_device) = Some ''offline''"
proof -
  have h: "select_latest_device one_device = Some esp32_row"
    "no_faults StatusSelectDevice = None" "no_faults StatusSelectLatest = None"
    "no_faults StatusUpdate = None \<or> UpdateThenSelect = SelectThenUpdate"
    "exited one_device = None"
    "distinct (map device.device_id (devices one_device))"
    by (simp_all add: eval_defs)
  have c: "esp32_row \<in> set (devices one_device)" "device.status esp32_row = ''online''"
    "last_seen esp32_row = 100" "device.device_id esp32_row = ''esp32''"
    "isOnline 159999 esp32_row" "\<not> isOnline 160000 esp32_row"
    "no_faults StatusUpdate = None"
    by (simp_all add: eval_defs)
  note a = liveness_evaluation [where F=no_faults and ord=UpdateThenSelect and now=159999, OF h]
    and b = liveness_evaluation [where F=no_faults and ord=UpdateThenSelect and now=160000, OF h]
  note swept = conjunct2 [THEN conjunct2, THEN conjunct2, THEN conjunct2, THEN conjunct2,
      THEN conjunct2, THEN bspec]
  have s: "select_device_status ''esp32'' (sweep no_faults 159999 one_device) = Some ''online''"
    "select_device_status ''esp32'' (sweep no_faults 160000 one_device) = Some ''offline''"
    using a [THEN swept, OF c(1)] b [THEN swept, OF c(1)] c by simp_all
  show ?thesis
    using h(1-3,5,6) c s a b by (simp add: new_Date_def minutes_lt_1)
qed

text \<open>
  C1. Without storage errors, with the process running, and in a \<^verbatim>\<open>devices\<close> table whose
  device ids are distinct (the primary key): a tick of the sweep over a device stored as
  \<open>offline\<close> adds no report and no offline event for it and leaves it \<open>offline\<close>. A tick
  over a device stored as \<open>online\<close> whose \<^verbatim>\<open>last_seen\<close> is at least one minute old
  appends exactly one report for it, with the device id, the status \<open>offline\<close>, 0 for
  \<^verbatim>\<open>uptime_seconds\<close>, \<^verbatim>\<open>rssi\<close>, \<^verbatim>\<open>free_heap\<close> and \<^verbatim>\<open>is_boot\<close>, the empty \<^verbatim>\<open>ip_address\<close> and
  the time of the tick; it logs one offline event and stores \<open>offline\<close>. A further tick, at
  whatever time, adds no report and no event for the device, and a later report of the
  device with status \<open>online\<close> stores \<open>online\<close> again.
\<close>

theorem exactly_once_offline:
  assumes "distinct (map device.device_id (devices s))" and "dev \<in> set (devices s)"
    and "exited s = None"
  shows "(device.status dev = ''offline'' \<longrightarrow>
            reports_of (device.device_id dev) (sweep no_faults now s)
              = reports_of (device.device_id dev) s
          \<and> offline_events (device.device_id dev) (sweep no_faults now s)
              = offline_events (device.device_id dev) s
          \<and> select_device_status (device.device_id dev) (sweep no_faults now s) = Some ''offline'')
    \<and> (device.status dev = ''online'' \<and> minutesSinceLastSeen now dev \<ge> 1 \<longrightarrow>
            (\<exists>m. reports_of (device.device_id dev) (sweep no_faults now s)
                   = reports_of (device.device_id dev) s @
                       [\<lparr>id = m, device_id = device.device_id dev, status = ''offline'',
                         uptime_seconds = Num 0, ip_address = [], rssi = Num 0,
                         free_heap = Num 0, is_boot = 0, timestamp = Num now,
                         server_timestamp = CURRENT_TIMESTAMP now\<rparr>])
          \<and> offline_events (device.device_id dev) (sweep no_faults now s)
              = offline_events (device.device_id dev) s
                @ [DetectedOffline (device.device_id dev) (Math_round (minutesSinceLastSeen now dev))]
          \<and> select_device_status (device.device_id dev) (sweep no_faults now s) = Some ''offline''
          \<and> reports_of (device.device_id dev) (sweep no_faults now' (sweep no_faults now s))
              = reports_of (device.device_id dev) (sweep no_faults now s)
          \<and> offline_events (device.device_id dev) (sweep no_faults now' (sweep no_faults now s))
              = offline_events (device.device_id dev) (sweep no_faults now s)
          \<and> (or_string (body.device_id data) ''unknown'' = device.device_id dev
               \<and> or_string (body.status data) ''online'' = ''online'' \<longrightarrow>
             select_device_status (device.device_id dev)
               (snd (post_status no_faults ord data now'
                      (sweep no_faults now' (sweep no_faults now s)))) = Some ''online''))"
proof (intro conjI impI)
  have alive: "exited (sweep no_faults t x) = None" if "exited x = None" for t x
    using that by (rule sweep_fields)
  assume off: "device.status dev = ''offline''"
  then have "\<forall>d \<in> set (devices s). device.device_id d = device.device_id dev \<longrightarrow> \<not> sweep_due now d"
    using assms by (auto simp add: sweep_due_def distinct_map inj_on_def)
  then show "reports_of (device.device_id dev) (sweep no_faults now s)
              = reports_of (device.device_id dev) s"
    and "offline_events (device.device_id dev) (sweep no_faults now s)
              = offline_events (device.device_id dev) s"
    using assms(3) by (rule sweep_not_due)+
  show "select_device_status (device.device_id dev) (sweep no_faults now s) = Some ''offline''"
    using sweep_status [OF assms, of now] off by simp
next
  have alive: "exited (sweep no_faults t x) = None" if "exited x = None" for t x
    using that by (rule sweep_fields)
  assume "device.status dev = ''online'' \<and> 1 \<le> minutesSinceLastSeen now dev"
  then have due: "sweep_due now dev"
    by (simp add: sweep_due_def)
  show "\<exists>m. reports_of (device.device_id dev) (sweep no_faults now s)
                   = reports_of (device.device_id dev) s @
                       [\<lparr>id = m, device_id = device.device_id dev, status = ''offline'',
                         uptime_seconds = Num 0, ip_address = [], rssi = Num 0,
                         free_heap = Num 0, is_boot = 0, timestamp = Num now,
                         server_timestamp = CURRENT_TIMESTAMP now\<rparr>]"
    using sweep_due_once(1) [OF assms(1,2) due assms(3)] by (simp add: sweep_row_def)
  show "offline_events (device.device_id dev) (sweep no_faults now s)
              = offline_events (device.device_id dev) s
                @ [DetectedOffline (device.device_id dev) (Math_round (minutesSinceLastSeen now dev))]"
    by (rule sweep_due_once(2) [OF assms(1,2) due assms(3)])
  show "select_device_status (device.device_id dev) (sweep no_faults now s) = Some ''offline''"
    using sweep_status [OF assms, of now] due by simp
  show "reports_of (device.device_id dev) (sweep no_faults now' (sweep no_faults now s))
              = reports_of (device.device_id dev) (sweep no_faults now s)"
    and "offline_events (device.device_id dev) (sweep no_faults now' (sweep no_faults now s))
              = offline_events (device.device_id dev) (sweep no_faults now s)"
    by (rule sweep_not_due [OF sweep_marks_row [OF assms(2) due assms(3)] alive [OF assms(3)]])+
  assume "or_string (body.device_id data) ''unknown'' = device.device_id dev
            \<and> or_string (body.status data) ''online'' = ''online''"
  moreover have "upsert_applied no_faults ord"
    by (simp add: upsert_applied_def no_faults_def)
  moreover have "exited (sweep no_faults now' (sweep no_faults now s)) = None"
    by (rule alive [OF alive [OF assms(3)]])
  ultimately show "select_device_status (device.device_id dev)
               (snd (post_status no_faults ord data now'
                      (sweep no_faults now' (sweep no_faults now s)))) = Some ''online''"
    using select_device_post_status [where F=no_faults and ord=ord and data=data and now=now'
        and s="sweep no_faults now' (sweep no_faults now s)"]
    by (simp add: select_device_status_def select_device_def)
qed

theorem exactly_once_offline_witness:
  "distinct (map device.device_id (devices one_device))
   \<and> esp32_row \<in> set (devices one_device)
   \<and> exited one_device = None
   \<and> device.status esp32_row = ''online''
   \<and> minutesSinceLastSeen 190000 esp32_row \<ge> 1
   \<and> length (reports_of ''esp32'' one_device) = 1
   \<and> reports_of ''esp32'' (sweep no_faults 190000 one_device)
       = reports_of ''esp32'' one_device @
           [\<lparr>id = 2, device_id = ''esp32'', status = ''offline'', uptime_seconds = Num 0,
             ip_address = [], rssi = Num 0, free_heap = Num 0, is_boot = 0,
             timestamp = Num 190000, server_timestamp = 190\<rparr>]
   \<and> reports_of ''esp32'' (sweep no_faults 250000 (sweep no_faults 190000 one_device))
       = reports_of ''esp32'' (sweep no_faults 190000 one_device)
   \<and> distinct (map device.device_id (devices (sweep no_faults 190000 one_device)))
   \<and> esp32_row\<lparr>device.status := ''offline''\<rparr> \<in> set (devices (sweep no_faults 190000 one_device))
   \<and> exited (sweep no_faults 190000 one_device) = None
   \<and> device.status (esp32_row\<lparr>device.status := ''offline''\<rparr>) = ''offline''
   \<and> offline_events ''esp32'' (sweep no_faults 250000 (sweep no_faults 190000 one_device))
       = [DetectedOffline ''esp32'' 2]
   \<and> select_device_status ''esp32''
        (snd (post_status no_faults InsertSelectUpsert (esp32_body ''esp32'' ''online'') 250000
               (sweep no_faults 250000 (sweep no_faults 190000 one_device)))) = Some ''online''"
proof -
  have h: "distinct (map device.device_id (devices one_device))"
    "esp32_row \<in> set (devices one_device)" "exited one_device = None"
    by (simp_all add: eval_defs)
  have c: "device.status esp32_row = ''online''" "minutesSinceLastSeen 190000 esp32_row \<ge> 1"
    "device.device_id esp32_row = ''esp32''"
    by (simp_all add: eval_defs)
  have b: "or_string (body.device_id (esp32_body ''esp32'' ''online'')) ''unknown'' = ''esp32''"
    "or_string (body.status (esp32_body ''esp32'' ''online'')) ''online'' = ''online''"
    by (simp_all add: eval_defs)
  have e: "length (reports_of ''esp32'' one_device) = 1"
    "reports_of ''esp32'' (sweep no_faults 190000 one_device)
       = reports_of ''esp32'' one_device @
           [\<lparr>id = 2, device_id = ''esp32'', status = ''offline'', uptime_seconds = Num 0,
             ip_address = [], rssi = Num 0, free_heap = Num 0, is_boot = 0,
             timestamp = Num 190000, server_timestamp = 190\<rparr>]"
    "esp32_row\<lparr>device.status := ''offline''\<rparr> \<in> set (devices (sweep no_faults 190000 one_device))"
    "offline_events ''esp32'' (sweep no_faults 190000 one_device) = [DetectedOffline ''esp32'' 2]"
    by (simp_all add: sweep_eval)
  have h2: "distinct (map device.device_id (devices (sweep no_faults 190000 one_device)))"
    "exited (sweep no_faults 190000 one_device) = None"
    using h(1,3) by (simp_all add: device_ids_sweep sweep_fields(4))
  note w = exactly_once_offline [OF h, of 190000 250000 "esp32_body ''esp32'' ''online''"
      InsertSelectUpsert]
    and w2 = exactly_once_offline [OF h2(1) e(3) h2(2), of 250000]
  show ?thesis
    using h h2 c b e w w2 by simp
qed

subsection \<open>Transitions and storage errors\<close>









text \<open>
  C7. When the read of a \<^verbatim>\<open>GET\<close> handler fails (the device row or the latest update of
  \<^verbatim>\<open>/api/status\<close>, the rows of \<^verbatim>\<open>/api/history\<close>, the aggregate of \<^verbatim>\<open>/api/stats\<close>), the
  handler answers 500 with the message of the error, and when the read of the device list
  fails in a tick of the sweep, the tick logs the error and changes no table. But when the
  \<^verbatim>\<open>INSERT\<close> of \<^verbatim>\<open>POST /api/status\<close> fails, the handler has answered 200
  \<^verbatim>\<open>{success: true}\<close>, the report is not stored, and the error ends the process; and when
  the \<^verbatim>\<open>UPDATE\<close> of \<^verbatim>\<open>GET /api/status\<close> fails, the error ends the process, before the
  answer when the \<^verbatim>\<open>UPDATE\<close> runs first.
\<close>

theorem storage_error_propagation:
  assumes "exited s = None"
  shows "(F StatusSelectDevice = Some msg \<longrightarrow>
      get_status F ord now s = (Some (Response 500 (ErrorMessage msg)), s))
   \<and> (F StatusSelectDevice = None \<and> select_latest_device s = Some dev
        \<and> F StatusSelectLatest = Some msg \<and> F StatusUpdate = None \<longrightarrow>
      fst (get_status F ord now s) = Some (Response 500 (ErrorMessage msg)))
   \<and> (F HistorySelect = Some msg \<longrightarrow> get_history F parsed s = Response 500 (ErrorMessage msg))
   \<and> (F StatsSelect = Some msg \<longrightarrow> get_stats F s = Response 500 (ErrorMessage msg))
   \<and> (F SweepSelect = Some msg \<longrightarrow>
        sweep F now s = s\<lparr>console := console s @ [ErrorCheckingDevices msg]\<rparr>)
   \<and> (F PostInsert = Some msg \<and> (F PostUpsert = None \<or> F PostUpsert = Some msg) \<longrightarrow>
        fst (post_status F ord' data now s)
          = Response 200 (StatusReceived True ''Status received'')
        \<and> status_updates (snd (post_status F ord' data now s)) = status_updates s
        \<and> exited (snd (post_status F ord' data now s)) = Some msg)
   \<and> (F StatusSelectDevice = None \<and> select_latest_device s = Some dev
        \<and> \<not> isOnline now dev \<and> device.status dev = ''online''
        \<and> F StatusUpdate = Some msg \<longrightarrow>
        exited (snd (get_status F ord now s)) = Some msg
        \<and> fst (get_status F UpdateThenSelect now s) = None)"
proof -
  have post: "status_updates (snd (post_status F ord' data now s)) = status_updates s
        \<and> exited (snd (post_status F ord' data now s)) = Some msg"
    if "F PostInsert = Some msg" and "F PostUpsert = None \<or> F PostUpsert = Some msg"
    using that(2)
  proof
    assume "F PostUpsert = None"
    then show ?thesis
      using that(1) assms by (cases ord') (simp_all add: post_eval)
  next
    assume "F PostUpsert = Some msg"
    then show ?thesis
      using that(1) assms by (cases ord') (simp_all add: post_eval)
  qed
  have upd: "exited (snd (get_status F ord now s)) = Some msg
        \<and> fst (get_status F UpdateThenSelect now s) = None"
    if "F StatusSelectDevice = None" and "select_latest_device s = Some dev"
      and "\<not> isOnline now dev" and "device.status dev = ''online''"
      and "F StatusUpdate = Some msg"
    using that assms by (simp add: get_status_def db_query_def Let_def db_run_running)
  have rd: "fst (get_status F ord now s) = Some (Response 500 (ErrorMessage msg))"
    if "F StatusSelectDevice = None" and "select_latest_device s = Some dev"
      and "F StatusSelectLatest = Some msg" and "F StatusUpdate = None"
    using that assms by (simp add: get_status_def db_query_def Let_def db_run_running)
  show ?thesis
    using post upd rd
    by (simp add: get_status_def get_history_def get_stats_def sweep_def db_query_def
        console_log_def fst_post_status)
qed

theorem storage_error_propagation_witness:
  "exited one_device = None
   \<and> all_fail StatusSelectDevice = Some ''SQLITE_IOERR: disk I/O error''
   \<and> all_fail HistorySelect = Some ''SQLITE_IOERR: disk I/O error''
   \<and> all_fail StatsSelect = Some ''SQLITE_IOERR: disk I/O error''
   \<and> all_fail SweepSelect = Some ''SQLITE_IOERR: disk I/O error''
   \<and> all_fail PostInsert = Some ''SQLITE_IOERR: disk I/O error''
   \<and> all_fail PostUpsert = Some ''SQLITE_IOERR: disk I/O error''
   \<and> get_status all_fail UpdateThenSelect 160000 one_device
       = (Some (Response 500 (ErrorMessage ''SQLITE_IOERR: disk I/O error'')), one_device)
   \<and> get_history all_fail None one_device
       = Response 500 (ErrorMessage ''SQLITE_IOERR: disk I/O error'')
   \<and> get_stats all_fail one_device = Response 500 (ErrorMessage ''SQLITE_IOERR: disk I/O error'')
   \<and> devices (sweep all_fail 160000 one_device) = devices one_device
   \<and> status_updates (sweep all_fail 160000 one_device) = status_updates one_device
   \<and> fst (post_status all_fail InsertSelectUpsert (esp32_body ''esp32'' ''online'') 130000
             one_device)
       = Response 200 (StatusReceived True ''Status received'')
   \<and> status_updates
        (snd (post_status all_fail InsertSelectUpsert (esp32_body ''esp32'' ''online'') 130000
                one_device))
       = status_updates one_device
   \<and> exited (snd (post_status all_fail InsertSelectUpsert (esp32_body ''esp32'' ''online'')
                     130000 one_device))
       = Some ''SQLITE_IOERR: disk I/O error''
   \<and> (no_faults(StatusUpdate := Some ''SQLITE_IOERR: disk I/O error'')) StatusSelectDevice = None
   \<and> (no_faults(StatusUpdate := Some ''SQLITE_IOERR: disk I/O error'')) StatusUpdate
       = Some ''SQLITE_IOERR: disk I/O error''
   \<and> select_latest_device one_device = Some esp32_row
   \<and> \<not> isOnline 160000 esp32_row \<and> device.status esp32_row = ''online''
   \<and> exited (snd (get_status (no_faults(StatusUpdate := Some ''SQLITE_IOERR: disk I/O error''))
                     SelectThenUpdate 160000 one_device))
       = Some ''SQLITE_IOERR: disk I/O error''
   \<and> fst (get_status (no_faults(StatusUpdate := Some ''SQLITE_IOERR: disk I/O error''))
             UpdateThenSelect 160000 one_device)
       = None"
proof -
  have a: "exited one_device = None"
    by (simp add: eval_defs)
  have f: "all_fail StatusSelectDevice = Some ''SQLITE_IOERR: disk I/O error''"
    "all_fail HistorySelect = Some ''SQLITE_IOERR: disk I/O error''"
    "all_fail StatsSelect = Some ''SQLITE_IOERR: disk I/O error''"
    "all_fail SweepSelect = Some ''SQLITE_IOERR: disk I/O error''"
    "all_fail PostInsert = Some ''SQLITE_IOERR: disk I/O error''"
    "all_fail PostUpsert = Some ''SQLITE_IOERR: disk I/O error''"
    by (simp_all add: all_fail_def)
  have g: "(no_faults(StatusUpdate := Some ''SQLITE_IOERR: disk I/O error'')) StatusSelectDevice = None"
    "(no_faults(StatusUpdate := Some ''SQLITE_IOERR: disk I/O error'')) StatusUpdate
       = Some ''SQLITE_IOERR: disk I/O error''"
    by (simp_all add: no_faults_def)
  have h: "select_latest_device one_device = Some esp32_row"
    "\<not> isOnline 160000 esp32_row" "device.status esp32_row = ''online''"
    by (simp_all add: eval_defs)
  note w = storage_error_propagation [OF a, where F=all_fail and now=160000
      and ord=UpdateThenSelect and ord'=InsertSelectUpsert
      and msg="''SQLITE_IOERR: disk I/O error''" and parsed=None
      and data="esp32_body ''esp32'' ''online''"]
  note u = storage_error_propagation [OF a, where now=160000 and dev=esp32_row
      and F="no_faults(StatusUpdate := Some ''SQLITE_IOERR: disk I/O error'')"
      and msg="''SQLITE_IOERR: disk I/O error''"]
  have p: "fst (post_status all_fail InsertSelectUpsert (esp32_body ''esp32'' ''online'') 130000
             one_device)
       = Response 200 (StatusReceived True ''Status received'')
   \<and> status_updates
        (snd (post_status all_fail InsertSelectUpsert (esp32_body ''esp32'' ''online'') 130000
                one_device))
       = status_updates one_device
   \<and> exited (snd (post_status all_fail InsertSelectUpsert (esp32_body ''esp32'' ''online'')
                     130000 one_device))
       = Some ''SQLITE_IOERR: disk I/O error''"
    using storage_error_propagation [OF a, where F=all_fail and now=130000
      and ord'=InsertSelectUpsert and msg="''SQLITE_IOERR: disk I/O error''"
      and data="esp32_body ''esp32'' ''online''"] f(5,6)
    by simp
  have q: "exited (snd (get_status (no_faults(StatusUpdate := Some ''SQLITE_IOERR: disk I/O error''))
                     SelectThenUpdate 160000 one_device))
       = Some ''SQLITE_IOERR: disk I/O error''
   \<and> fst (get_status (no_faults(StatusUpdate := Some ''SQLITE_IOERR: disk I/O error''))
             UpdateThenSelect 160000 one_device)
       = None"
    using u [where ord=SelectThenUpdate] g h by simp
  have r: "get_status all_fail UpdateThenSelect 160000 one_device
       = (Some (Response 500 (ErrorMessage ''SQLITE_IOERR: disk I/O error'')), one_device)"
    "get_history all_fail None one_device
       = Response 500 (ErrorMessage ''SQLITE_IOERR: disk I/O error'')"
    "get_stats all_fail one_device = Response 500 (ErrorMessage ''SQLITE_IOERR: disk I/O error'')"
    "sweep all_fail 160000 one_device
       = one_device\<lparr>console := console one_device @ [ErrorCheckingDevices ''SQLITE_IOERR: disk I/O error'']\<rparr>"
    using w f by simp_all
  show ?thesis
    using a f g h p q r by simp
qed

end
